theory Spec2Isabelle
  imports Main
begin

section \<open>Values of the host language\<close>

text \<open>
  The engine is written in TypeScript. Identifiers (object ids, keys) are strings; a string is
  a list of 8-bit code units (the Latin-1 range of the host's strings). Numbers are modelled
  as integers, the exactly representable values that appear as ids, indexes and counters.
  A plain object is an association list in property order; property keys of one object are
  distinct. A date carries its two renderings: the ISO-8601 text and the default text form.
\<close>

type_synonym oid = string

datatype error =
    NotFoundException string
  | BadRequestException string
  | InternalServerErrorException string
  | JsError string
  | TypeError string
  | OperationError string "string option"
  | EvaluationError string

datatype val =
    VUndefined
  | VNull
  | VBool bool
  | VNum int
  | VStr string
  | VArr "val list"
  | VObj "(string \<times> val) list"
  | VDate string string

type_synonym obj = "(string \<times> val) list"

text \<open>Truthiness, as tested by \<^verbatim>\<open>if (x)\<close> and \<^verbatim>\<open>!x\<close>.\<close>

fun js_truthy :: "val \<Rightarrow> bool" where
  "js_truthy VUndefined = False"
| "js_truthy VNull = False"
| "js_truthy (VBool b) = b"
| "js_truthy (VNum n) = (n \<noteq> 0)"
| "js_truthy (VStr s) = (s \<noteq> [])"
| "js_truthy (VArr xs) = True"
| "js_truthy (VObj kvs) = True"
| "js_truthy (VDate d t) = True"

text \<open>An optional string field is truthy when it is present and not empty.\<close>

fun str_truthy :: "string option \<Rightarrow> bool" where
  "str_truthy None = False"
| "str_truthy (Some s) = (s \<noteq> [])"

text \<open>Decimal text of a number (\<^verbatim>\<open>Number.prototype.toString\<close> on an integer).\<close>

fun dec_nat :: "nat \<Rightarrow> string" where
  "dec_nat n = (if n < 10 then [''0123456789'' ! n]
                else dec_nat (n div 10) @ [''0123456789'' ! (n mod 10)])"

declare dec_nat.simps [simp del]

definition dec_int :: "int \<Rightarrow> string" where
  "dec_int n = (if n < 0 then CHR ''-'' # dec_nat (nat (- n)) else dec_nat (nat n))"

fun join_with :: "string \<Rightarrow> string list \<Rightarrow> string" where
  "join_with sep [] = []"
| "join_with sep [x] = x"
| "join_with sep (x # y # ys) = x @ sep @ join_with sep (y # ys)"

text \<open>
  The string form of a value (\<^verbatim>\<open>String(x)\<close>, a template literal, or the implicit conversion of
  a replacement argument). An array joins the string forms of its elements with commas, where
  \<^verbatim>\<open>null\<close> and \<^verbatim>\<open>undefined\<close> elements give the empty string.
\<close>

fun js_toString :: "val \<Rightarrow> string"
  and js_toString_elems :: "val list \<Rightarrow> string list" where
  "js_toString VUndefined = ''undefined''"
| "js_toString VNull = ''null''"
| "js_toString (VBool b) = (if b then ''true'' else ''false'')"
| "js_toString (VNum n) = dec_int n"
| "js_toString (VStr s) = s"
| "js_toString (VArr xs) = join_with '','' (js_toString_elems xs)"
| "js_toString (VObj kvs) = ''[object Object]''"
| "js_toString (VDate d t) = t"
| "js_toString_elems [] = []"
| "js_toString_elems (x # xs) =
     (case x of VUndefined \<Rightarrow> [] | VNull \<Rightarrow> [] | _ \<Rightarrow> js_toString x) # js_toString_elems xs"

section \<open>Strings of the host language\<close>

text \<open>
  White space as \<^verbatim>\<open>\s\<close> and \<^verbatim>\<open>trim\<close> see it (tab, line feed, vertical tab, form feed,
  carriage return, space, no-break space), word characters as \<^verbatim>\<open>\w\<close> sees them.
\<close>

definition js_space :: "char \<Rightarrow> bool" where
  "js_space c = (c \<in> set [CHR 0x09, CHR 0x0A, CHR 0x0B, CHR 0x0C, CHR 0x0D, CHR 0x20, CHR 0xA0])"

definition is_digit :: "char \<Rightarrow> bool" where
  "is_digit c = (let n = (of_char c :: nat) in 48 \<le> n \<and> n \<le> 57)"

definition digit_val :: "char \<Rightarrow> nat" where
  "digit_val c = (of_char c :: nat) - 48"

definition is_word :: "char \<Rightarrow> bool" where
  "is_word c = (let n = (of_char c :: nat) in
      (48 \<le> n \<and> n \<le> 57) \<or> (65 \<le> n \<and> n \<le> 90) \<or> n = 95 \<or> (97 \<le> n \<and> n \<le> 122))"

definition js_trim :: "string \<Rightarrow> string" where
  "js_trim s = rev (dropWhile js_space (rev (dropWhile js_space s)))"

definition starts_with :: "string \<Rightarrow> string \<Rightarrow> bool" where
  "starts_with s p = (take (length p) s = p)"

text \<open>\<^verbatim>\<open>String.prototype.indexOf\<close>: the position of the first occurrence, if any.\<close>

fun str_indexOf :: "string \<Rightarrow> string \<Rightarrow> nat option" where
  "str_indexOf [] p = (if p = [] then Some 0 else None)"
| "str_indexOf (c # cs) p =
     (if starts_with (c # cs) p then Some 0 else map_option Suc (str_indexOf cs p))"

text \<open>
  Expansion of a replacement text (the language's \<^verbatim>\<open>GetSubstitution\<close>): \<^verbatim>\<open>$$\<close> is a dollar
  sign, \<^verbatim>\<open>$&\<close> the matched text, \<^verbatim>\<open>$`\<close> the text before the match, \<^verbatim>\<open>$'\<close> the text after
  it, \<^verbatim>\<open>$n\<close> and \<^verbatim>\<open>$nn\<close> the capture of that number when there is one; every other
  character stands for itself. A two-digit reference beyond the number of captures is read
  as a one-digit reference followed by a digit.
\<close>

fun getSubstitution :: "string \<Rightarrow> string \<Rightarrow> nat \<Rightarrow> string list \<Rightarrow> string \<Rightarrow> string" where
  "getSubstitution matched str position captures [] = []"
| "getSubstitution matched str position captures [c] = [c]"
| "getSubstitution matched str position captures (c # d # r) =
     (if c \<noteq> CHR ''$'' then c # getSubstitution matched str position captures (d # r)
      else if d = CHR ''$'' then CHR ''$'' # getSubstitution matched str position captures r
      else if d = CHR ''&'' then matched @ getSubstitution matched str position captures r
      else if d = CHR 0x60 then take position str @ getSubstitution matched str position captures r
      else if d = CHR 0x27 then
        drop (position + length matched) str @ getSubstitution matched str position captures r
      else if is_digit d then
        (case r of
           [] \<Rightarrow>
             (if 1 \<le> digit_val d \<and> digit_val d \<le> length captures
              then captures ! (digit_val d - 1) else [c, d])
         | e # r' \<Rightarrow>
             (if is_digit e \<and> 10 * digit_val d + digit_val e \<le> length captures
              then (if 1 \<le> 10 * digit_val d + digit_val e
                    then captures ! (10 * digit_val d + digit_val e - 1) else [c, d, e])
                   @ getSubstitution matched str position captures r'
              else (if 1 \<le> digit_val d \<and> digit_val d \<le> length captures
                    then captures ! (digit_val d - 1) else [c, d])
                   @ getSubstitution matched str position captures (e # r')))
      else c # getSubstitution matched str position captures (d # r))"

text \<open>
  \<^verbatim>\<open>str.replace(pattern, replacement)\<close> with a string pattern: only the first occurrence of
  the pattern is replaced, by the expansion of the replacement text; there are no captures.
\<close>

definition js_replace_str :: "string \<Rightarrow> string \<Rightarrow> string \<Rightarrow> string" where
  "js_replace_str s pat repl =
     (case str_indexOf s pat of
        None \<Rightarrow> s
      | Some pos \<Rightarrow> take pos s @ getSubstitution pat s pos [] repl @ drop (pos + length pat) s)"

subsection \<open>JSON text\<close>

definition hex_digit :: "nat \<Rightarrow> char" where
  "hex_digit n = ''0123456789abcdef'' ! (n mod 16)"

definition json_quote_char :: "char \<Rightarrow> string" where
  "json_quote_char c =
     (if c = CHR 0x22 then [CHR 0x5C, CHR 0x22]
      else if c = CHR 0x5C then [CHR 0x5C, CHR 0x5C]
      else if c = CHR 0x08 then [CHR 0x5C, CHR ''b'']
      else if c = CHR 0x0C then [CHR 0x5C, CHR ''f'']
      else if c = CHR 0x0A then [CHR 0x5C, CHR ''n'']
      else if c = CHR 0x0D then [CHR 0x5C, CHR ''r'']
      else if c = CHR 0x09 then [CHR 0x5C, CHR ''t'']
      else if (of_char c :: nat) < 32
        then [CHR 0x5C, CHR ''u'', CHR ''0'', CHR ''0'',
              hex_digit ((of_char c :: nat) div 16), hex_digit (of_char c :: nat)]
      else [c])"

definition json_quote :: "string \<Rightarrow> string" where
  "json_quote s = CHR 0x22 # concat (map json_quote_char s) @ [CHR 0x22]"

text \<open>
  \<^verbatim>\<open>JSON.stringify\<close>: \<^verbatim>\<open>undefined\<close> has no JSON text (\<open>None\<close>); it is left out of an
  object and written \<^verbatim>\<open>null\<close> in an array. A date is written as its quoted ISO text.
\<close>

fun json_val :: "val \<Rightarrow> string option"
  and json_elems :: "val list \<Rightarrow> string list"
  and json_props :: "(string \<times> val) list \<Rightarrow> string list" where
  "json_val VUndefined = None"
| "json_val VNull = Some ''null''"
| "json_val (VBool b) = Some (if b then ''true'' else ''false'')"
| "json_val (VNum n) = Some (dec_int n)"
| "json_val (VStr s) = Some (json_quote s)"
| "json_val (VArr xs) = Some (''['' @ join_with '','' (json_elems xs) @ '']'')"
| "json_val (VObj kvs) = Some (''{'' @ join_with '','' (json_props kvs) @ ''}'')"
| "json_val (VDate d t) = Some (json_quote d)"
| "json_elems [] = []"
| "json_elems (x # xs) = (case json_val x of None \<Rightarrow> ''null'' | Some t \<Rightarrow> t) # json_elems xs"
| "json_props [] = []"
| "json_props (kv # kvs) =
     (case json_val (snd kv) of
        None \<Rightarrow> json_props kvs
      | Some t \<Rightarrow> (json_quote (fst kv) @ '':'' @ t) # json_props kvs)"

subsection \<open>Objects\<close>

text \<open>
  An object is the list of its own enumerable properties, in the order in which
  \<^verbatim>\<open>Object.entries\<close> lists them; the prototype of an object is not part of the model.
  \<^verbatim>\<open>obj_get\<close> reads an own property. \<^verbatim>\<open>obj_set\<close> defines an own property, as an object
  literal with a computed key and the spread of an object do.
\<close>

fun obj_get :: "obj \<Rightarrow> string \<Rightarrow> val" where
  "obj_get [] k = VUndefined"
| "obj_get (kv # kvs) k = (if fst kv = k then snd kv else obj_get kvs k)"

fun obj_set :: "obj \<Rightarrow> string \<Rightarrow> val \<Rightarrow> obj" where
  "obj_set [] k v = [(k, v)]"
| "obj_set (kv # kvs) k v = (if fst kv = k then (k, v) # kvs else kv # obj_set kvs k v)"

text \<open>
  The assignment \<^verbatim>\<open>o[key] = v\<close> on an object made by the literal \<^verbatim>\<open>{}\<close>. The key
  \<^verbatim>\<open>__proto__\<close> is an accessor of the prototype of such an object: the assignment calls its
  setter, which replaces the prototype of the object when the value is an object or
  \<^verbatim>\<open>null\<close> and does nothing otherwise; in both cases the object gets no property of its
  own. Every other key is written as an own property.
\<close>

definition obj_assign :: "obj \<Rightarrow> string \<Rightarrow> val \<Rightarrow> obj" where
  "obj_assign ob k v = (if k = ''__proto__'' then ob else obj_set ob k v)"

definition obj_keys :: "obj \<Rightarrow> string list" where
  "obj_keys kvs = map fst kvs"

definition has_key :: "obj \<Rightarrow> string \<Rightarrow> bool" where
  "has_key kvs k = (k \<in> set (map fst kvs))"

text \<open>
  An array index is the decimal text of a position, without leading zeros. Property access
  \<^verbatim>\<open>x[key]\<close> on a value: own properties of objects, elements and length of arrays, code
  units and length of strings; everything else reads as \<^verbatim>\<open>undefined\<close>.
\<close>

definition array_index :: "string \<Rightarrow> nat option" where
  "array_index k =
     (if k \<noteq> [] \<and> list_all is_digit k \<and> (length k = 1 \<or> hd k \<noteq> CHR ''0'')
      then Some (foldl (\<lambda>a c. 10 * a + digit_val c) 0 k) else None)"

fun js_prop :: "val \<Rightarrow> string \<Rightarrow> val" where
  "js_prop (VObj kvs) k = obj_get kvs k"
| "js_prop (VArr xs) k =
     (if k = ''length'' then VNum (int (length xs))
      else case array_index k of
             None \<Rightarrow> VUndefined
           | Some i \<Rightarrow> if i < length xs then xs ! i else VUndefined)"
| "js_prop (VStr s) k =
     (if k = ''length'' then VNum (int (length s))
      else case array_index k of
             None \<Rightarrow> VUndefined
           | Some i \<Rightarrow> if i < length s then VStr [s ! i] else VUndefined)"
| "js_prop v k = VUndefined"

section \<open>Expression resolver\<close>

subsection \<open>Path lookup\<close>

text \<open>
  \<^verbatim>\<open>_.get(object, path)\<close> of the lodash library, for the paths the resolver passes to it:
  texts of word characters, brackets and dots. A path that is itself a key of the object
  is read directly. Otherwise the path is cut into keys: a run of characters other than dot
  and brackets is a key, a bracketed number (digits, with an optional sign and an optional
  fraction) is a key, and an empty key stands where a dot
  or an empty pair of brackets is followed by a dot, an empty pair of brackets or the end.
  The walk stops with \<^verbatim>\<open>undefined\<close> at the first \<^verbatim>\<open>null\<close> or \<^verbatim>\<open>undefined\<close> on the way.
\<close>

definition path_sep :: "char \<Rightarrow> bool" where
  "path_sep c = (c = CHR ''.'' \<or> c = CHR ''['' \<or> c = CHR '']'')"

definition number_prefix :: "string \<Rightarrow> string" where
  "number_prefix r =
     (let sign = (if starts_with r ''-'' then ''-'' else []);
          ds = takeWhile is_digit (drop (length sign) r);
          r' = drop (length sign + length ds) r;
          frac = (if starts_with r' ''.'' \<and> takeWhile is_digit (drop 1 r') \<noteq> []
                  then CHR ''.'' # takeWhile is_digit (drop 1 r') else [])
      in if ds = [] then [] else sign @ ds @ frac)"

definition bracket_number :: "string \<Rightarrow> string option" where
  "bracket_number s =
     (case s of
        [] \<Rightarrow> None
      | c # r \<Rightarrow>
          if c \<noteq> CHR ''['' then None
          else let ds = number_prefix r
               in if ds \<noteq> [] \<and> starts_with (drop (length ds) r) '']'' then Some ds else None)"

definition empty_key_here :: "string \<Rightarrow> bool" where
  "empty_key_here s =
     (let r = (if starts_with s ''.'' then Some (drop 1 s)
               else if starts_with s ''[]'' then Some (drop 2 s) else None)
      in case r of
           None \<Rightarrow> False
         | Some t \<Rightarrow> t = [] \<or> starts_with t ''.'' \<or> starts_with t ''[]'')"

function stringToPath :: "string \<Rightarrow> string list" where
  "stringToPath [] = []"
| "stringToPath (c # cs) =
     (if \<not> path_sep c then
        takeWhile (\<lambda>x. \<not> path_sep x) (c # cs)
          # stringToPath (dropWhile (\<lambda>x. \<not> path_sep x) cs)
      else case bracket_number (c # cs) of
             Some ds \<Rightarrow> ds # stringToPath (drop (length ds + 1) cs)
           | None \<Rightarrow>
               if empty_key_here (c # cs) then [] # stringToPath cs else stringToPath cs)"
  by pat_completeness auto
termination
  by (relation "measure length") (auto simp: length_dropWhile_le less_Suc_eq_le)

fun baseGet :: "val \<Rightarrow> string list \<Rightarrow> val" where
  "baseGet v [] = v"
| "baseGet v (k # ks) =
     (case v of VUndefined \<Rightarrow> VUndefined | VNull \<Rightarrow> VUndefined | _ \<Rightarrow> baseGet (js_prop v k) ks)"

definition lodash_get :: "obj \<Rightarrow> string \<Rightarrow> val" where
  "lodash_get references path =
     (if has_key references path then obj_get references path
      else case stringToPath path of
             [] \<Rightarrow> VUndefined
           | k # ks \<Rightarrow> baseGet (VObj references) (k # ks))"

subsection \<open>The two scanners\<close>

text \<open>
  The placeholder pattern \<^verbatim>\<open>/{{\s*([^}]+)\s*}}/g\<close> of \<^verbatim>\<open>parseInput\<close>. A match starts
  with two opening braces, runs over a non-empty text free of closing braces and ends with
  the two closing braces that follow it. The captured group is that text without its leading
  white space; when the text is white space only, the group is its last character. The
  result lists, for every match from left to right, the matched text and the group.
\<close>

definition variable_at :: "string \<Rightarrow> (string \<times> string) option" where
  "variable_at s =
     (if starts_with s ''{{'' then
        (let body = takeWhile (\<lambda>c. c \<noteq> CHR ''}'') (drop 2 s);
             g = dropWhile js_space body
         in if body \<noteq> [] \<and> starts_with (drop (2 + length body) s) ''}}''
            then Some (''{{'' @ body @ ''}}'', if g = [] then [last body] else g)
            else None)
      else None)"

function matchAll_variable :: "string \<Rightarrow> (string \<times> string) list" where
  "matchAll_variable [] = []"
| "matchAll_variable (c # cs) =
     (case variable_at (c # cs) of
        None \<Rightarrow> matchAll_variable cs
      | Some m \<Rightarrow> m # matchAll_variable (drop (length (fst m) - 1) cs))"
  by pat_completeness auto
termination
  by (relation "measure length") auto

text \<open>
  The path pattern \<^verbatim>\<open>/[\w[\]]+\.[\w[\]]+(\.[\w[\]]+)*/g\<close> of \<^verbatim>\<open>calculateExpression\<close>:
  a run of word characters and brackets, followed by one or more groups of a dot and such a
  run. The result lists every match with the position where it starts.
\<close>

definition path_char :: "char \<Rightarrow> bool" where
  "path_char c = (is_word c \<or> c = CHR ''['' \<or> c = CHR '']'')"

function path_tail :: "string \<Rightarrow> string" where
  "path_tail [] = []"
| "path_tail (c # r) =
     (if c = CHR ''.'' \<and> takeWhile path_char r \<noteq> []
      then c # takeWhile path_char r @ path_tail (dropWhile path_char r)
      else [])"
  by pat_completeness auto
termination
  by (relation "measure length") (auto simp: length_dropWhile_le less_Suc_eq_le)

definition operator_at :: "string \<Rightarrow> string option" where
  "operator_at s =
     (let seg = takeWhile path_char s; t = path_tail (dropWhile path_char s)
      in if seg \<noteq> [] \<and> t \<noteq> [] then Some (seg @ t) else None)"

function matchAll_operators :: "nat \<Rightarrow> string \<Rightarrow> (nat \<times> string) list" where
  "matchAll_operators i [] = []"
| "matchAll_operators i (c # cs) =
     (case operator_at (c # cs) of
        None \<Rightarrow> matchAll_operators (i + 1) cs
      | Some tok \<Rightarrow> (i, tok) # matchAll_operators (i + length tok) (drop (length tok - 1) cs))"
  by pat_completeness auto
termination
  by (relation "measure (\<lambda>(i, s). length s)") auto

subsection \<open>The expression evaluator and its built-in functions\<close>

text \<open>
  The arithmetic and string evaluator (the mathjs parser) is a collaborator. It receives the
  table of functions that \<^verbatim>\<open>calculateExpression\<close> registers and the expression text, and
  returns a value or fails.
\<close>

type_synonym builtin = "val list \<Rightarrow> error + val"
type_synonym evaluator = "(string \<Rightarrow> builtin option) \<Rightarrow> string \<Rightarrow> error + val"

text \<open>
  The template of \<^verbatim>\<open>extract\<close> becomes a regular expression in two textual steps: every
  character of \<^verbatim>\<open>. * + ? ^ $ { } ( ) | [ ]\<close> and the backslash gets a backslash in front, then every
  occurrence of three escaped stars, together with the stars that directly follow, becomes
  the group \<^verbatim>\<open>(.+)\<close>.
\<close>

definition regex_special :: "char \<Rightarrow> bool" where
  "regex_special c =
     (c \<in> set [CHR ''.'', CHR ''*'', CHR ''+'', CHR ''?'', CHR ''^'', CHR ''$'', CHR ''{'', CHR ''}'',
               CHR ''('', CHR '')'', CHR ''|'', CHR ''['', CHR '']'', CHR 0x5C])"

definition escape_template :: "string \<Rightarrow> string" where
  "escape_template t = concat (map (\<lambda>c. if regex_special c then [CHR 0x5C, c] else [c]) t)"

definition escaped_stars :: string where
  "escaped_stars = [CHR 0x5C, CHR ''*'', CHR 0x5C, CHR ''*'', CHR 0x5C, CHR ''*'']"

function wildcard_groups :: "string \<Rightarrow> string" where
  "wildcard_groups [] = []"
| "wildcard_groups (c # cs) =
     (if starts_with (c # cs) escaped_stars
      then ''(.+)'' @ wildcard_groups (dropWhile (\<lambda>x. x = CHR ''*'') (drop 5 cs))
      else c # wildcard_groups cs)"
  by pat_completeness auto
termination
  by (relation "measure length")
     (auto simp: less_Suc_eq_le intro: order_trans [OF length_dropWhile_le])

text \<open>
  The regular expressions so obtained are sequences of two kinds of atoms: a literal
  character (written plainly, or after a backslash) and the capturing group \<^verbatim>\<open>(.+)\<close>.
  A backslash at the very end is no regular expression.
\<close>

datatype atom = Lit char | Wild

function regex_atoms :: "string \<Rightarrow> atom list option" where
  "regex_atoms [] = Some []"
| "regex_atoms (c # cs) =
     (if c = CHR 0x5C then
        (case cs of [] \<Rightarrow> None | d # r \<Rightarrow> map_option ((#) (Lit d)) (regex_atoms r))
      else if starts_with (c # cs) ''(.+)'' then map_option ((#) Wild) (regex_atoms (drop 3 cs))
      else map_option ((#) (Lit c)) (regex_atoms cs))"
  by pat_completeness auto
termination
  by (relation "measure length") auto

text \<open>
  Matching, as the backtracking matcher does it. The dot takes any character but a line
  terminator; \<^verbatim>\<open>.+\<close> first takes as many characters as it can and gives them back one by
  one while the rest of the expression fails. The result is the list of captures and the
  number of characters the match spans.
\<close>

definition dot_char :: "char \<Rightarrow> bool" where
  "dot_char c = (c \<noteq> CHR 0x0A \<and> c \<noteq> CHR 0x0D)"

fun match_here :: "atom list \<Rightarrow> string \<Rightarrow> (string list \<times> nat) option"
  and wild_try :: "atom list \<Rightarrow> string \<Rightarrow> nat \<Rightarrow> (string list \<times> nat) option" where
  "match_here [] s = Some ([], 0)"
| "match_here (Lit c # as) s =
     (case s of
        [] \<Rightarrow> None
      | d # ds \<Rightarrow>
          if c = d then map_option (\<lambda>(caps, n). (caps, Suc n)) (match_here as ds) else None)"
| "match_here (Wild # as) s = wild_try as s (length (takeWhile dot_char s))"
| "wild_try as s 0 = None"
| "wild_try as s (Suc k) =
     (case match_here as (drop (Suc k) s) of
        Some (caps, n) \<Rightarrow> Some (take (Suc k) s # caps, Suc k + n)
      | None \<Rightarrow> wild_try as s k)"

text \<open>The first position, from the left, where the expression matches.\<close>

fun regex_exec :: "atom list \<Rightarrow> nat \<Rightarrow> string \<Rightarrow> (nat \<times> string list \<times> nat) option" where
  "regex_exec as i [] = map_option (\<lambda>(caps, n). (i, caps, n)) (match_here as [])"
| "regex_exec as i (c # cs) =
     (case match_here as (c # cs) of
        Some (caps, n) \<Rightarrow> Some (i, caps, n)
      | None \<Rightarrow> regex_exec as (Suc i) cs)"

text \<open>
  \<^verbatim>\<open>extract(str, template, replace)\<close>, the function registered under the name
  \<^verbatim>\<open>extract\<close>. All three parameters are declared as strings.
\<close>

definition extract_fn :: "string \<Rightarrow> string \<Rightarrow> string \<Rightarrow> error + string" where
  "extract_fn str template replace =
     (let escaped = escape_template template;
          regex = wildcard_groups escaped
      in case regex_atoms regex of
           None \<Rightarrow> Inl (JsError ''Invalid regular expression'')
         | Some as \<Rightarrow>
             (case regex_exec as 0 str of
                Some (pos, caps, n) \<Rightarrow>
                  Inr (take pos str
                       @ getSubstitution (take n (drop pos str)) str pos caps replace
                       @ drop (pos + n) str)
              | None \<Rightarrow> Inr []))"

text \<open>
  The other three registered functions. \<^verbatim>\<open>substring\<close> and the case conversions return a
  falsy argument as it is and work on the string form of the argument otherwise. Positions
  are declared as numbers; a missing end position is the length of the text. Case conversion
  is that of the Latin-1 letters (the capitals of \<^verbatim>\<open>0xB5\<close> and \<^verbatim>\<open>0xFF\<close> lie outside the
  range of the model's code units; they are left as they are).
\<close>

definition arg :: "nat \<Rightarrow> val list \<Rightarrow> val" where
  "arg i args = (if i < length args then args ! i else VUndefined)"

definition to_position :: "val \<Rightarrow> nat \<Rightarrow> nat \<Rightarrow> nat" where
  "to_position v dflt len =
     (case v of
        VNum n \<Rightarrow> (if n < 0 then 0 else min (nat n) len)
      | VUndefined \<Rightarrow> dflt
      | VBool b \<Rightarrow> (if b then min 1 len else 0)
      | _ \<Rightarrow> 0)"

definition js_substring :: "string \<Rightarrow> val \<Rightarrow> val \<Rightarrow> string" where
  "js_substring s start end' =
     (let a = to_position start 0 (length s); b = to_position end' (length s) (length s)
      in take (max a b - min a b) (drop (min a b) s))"

definition lower_char :: "char \<Rightarrow> char" where
  "lower_char c =
     (let n = (of_char c :: nat)
      in if (65 \<le> n \<and> n \<le> 90) \<or> (192 \<le> n \<and> n \<le> 222 \<and> n \<noteq> 215) then char_of (n + 32) else c)"

definition upper_char :: "char \<Rightarrow> string" where
  "upper_char c =
     (let n = (of_char c :: nat)
      in if (97 \<le> n \<and> n \<le> 122) \<or> (224 \<le> n \<and> n \<le> 254 \<and> n \<noteq> 247) then [char_of (n - 32)]
         else if n = 223 then ''SS'' else [c])"

definition builtin_substring :: builtin where
  "builtin_substring args =
     (if \<not> js_truthy (arg 0 args) then Inr (arg 0 args)
      else Inr (VStr (js_substring (js_toString (arg 0 args)) (arg 1 args) (arg 2 args))))"

definition builtin_lowercase :: builtin where
  "builtin_lowercase args =
     (if js_truthy (arg 0 args) then Inr (VStr (map lower_char (js_toString (arg 0 args))))
      else Inr (arg 0 args))"

definition builtin_uppercase :: builtin where
  "builtin_uppercase args =
     (if js_truthy (arg 0 args) then Inr (VStr (concat (map upper_char (js_toString (arg 0 args)))))
      else Inr (arg 0 args))"

definition builtin_extract :: builtin where
  "builtin_extract args =
     (case arg 1 args of
        VStr template \<Rightarrow>
          (case arg 0 args of
             VStr str \<Rightarrow> map_sum id VStr (extract_fn str template (js_toString (arg 2 args)))
           | _ \<Rightarrow> Inl (TypeError ''str.match is not a function''))
      | _ \<Rightarrow> Inl (TypeError ''template.replace is not a function''))"

definition builtins :: "string \<Rightarrow> builtin option" where
  "builtins name =
     (if name = ''substring'' then Some builtin_substring
      else if name = ''lowercase'' then Some builtin_lowercase
      else if name = ''uppercase'' then Some builtin_uppercase
      else if name = ''extract'' then Some builtin_extract
      else None)"

subsection \<open>Resolving expressions and inputs\<close>

text \<open>
  \<^verbatim>\<open>stringifyInput\<close>: a plain object becomes its JSON text, a date its ISO text, \<^verbatim>\<open>null\<close>
  and \<^verbatim>\<open>undefined\<close> the empty string; any other value is returned as it is.
\<close>

fun stringifyInput :: "val \<Rightarrow> val" where
  "stringifyInput (VObj kvs) = (case json_val (VObj kvs) of Some t \<Rightarrow> VStr t | None \<Rightarrow> VUndefined)"
| "stringifyInput (VDate d t) = VStr d"
| "stringifyInput VUndefined = VStr []"
| "stringifyInput VNull = VStr []"
| "stringifyInput v = v"

definition quote_count :: "string \<Rightarrow> nat" where
  "quote_count s = length (filter (\<lambda>c. c = CHR 0x27 \<or> c = CHR 0x22) s)"

text \<open>\<^verbatim>\<open>typeof value === 'string' || typeof value === 'object'\<close>\<close>

fun string_or_object :: "val \<Rightarrow> bool" where
  "string_or_object (VStr s) = True"
| "string_or_object VNull = True"
| "string_or_object (VArr xs) = True"
| "string_or_object (VObj kvs) = True"
| "string_or_object (VDate d t) = True"
| "string_or_object v = False"

text \<open>
  One step of the reduction over the path matches in \<^verbatim>\<open>calculateExpression\<close>: a match
  with an odd number of quote characters before its position in the input leaves the
  expression as it is; otherwise the first occurrence of the matched text in the current
  expression is replaced by the value found at that path.
\<close>

definition substitute_operator :: "obj \<Rightarrow> string \<Rightarrow> string \<Rightarrow> nat \<times> string \<Rightarrow> string" where
  "substitute_operator references input prev operatorMatch =
     (if odd (quote_count (take (fst operatorMatch) input)) then prev
      else let value = lodash_get references (snd operatorMatch);
               value' = (if string_or_object value
                         then VStr (CHR 0x22 # js_toString (stringifyInput value) @ [CHR 0x22])
                         else value)
           in js_replace_str prev (snd operatorMatch) (js_toString value'))"

definition calculateExpression :: "evaluator \<Rightarrow> string \<Rightarrow> obj \<Rightarrow> error + val" where
  "calculateExpression evaluate input references =
     (let operators = matchAll_operators 0 input
      in if length operators = 1 \<and> snd (hd operators) = js_trim input
         then Inr (lodash_get references input)
         else evaluate builtins (foldl (substitute_operator references input) input operators))"

text \<open>
  Modelled from the spec: \<^verbatim>\<open>isEmptyObj\<close> of the common object utilities is not among the
  sources. An object is empty when it has no property of its own.
\<close>

definition isEmptyObj :: "obj \<Rightarrow> bool" where
  "isEmptyObj kvs = (kvs = [])"

text \<open>
  The reduction over the placeholders of a string that is not one placeholder alone: each
  placeholder, in turn, replaces the first occurrence of its text in the current string by
  the string form of its value.
\<close>

fun replace_variables ::
  "evaluator \<Rightarrow> obj \<Rightarrow> (string \<times> string) list \<Rightarrow> string \<Rightarrow> error + string" where
  "replace_variables evaluate outputs [] prev = Inr prev"
| "replace_variables evaluate outputs (variableMatch # rest) prev =
     (case calculateExpression evaluate (js_trim (snd variableMatch)) outputs of
        Inl e \<Rightarrow> Inl e
      | Inr v \<Rightarrow>
          replace_variables evaluate outputs rest
            (js_replace_str prev (fst variableMatch) (js_toString (stringifyInput v))))"

definition parseString :: "evaluator \<Rightarrow> string \<Rightarrow> obj \<Rightarrow> error + val" where
  "parseString evaluate input outputs =
     (let variables = matchAll_variable input
      in if length variables = 1 \<and> js_trim input = fst (hd variables)
         then calculateExpression evaluate (js_trim (snd (hd variables))) outputs
         else map_sum id VStr (replace_variables evaluate outputs variables input))"

text \<open>
  \<^verbatim>\<open>parseInput\<close>. A date is an object without properties of its own. The entries of an
  object are assigned, in order, to a fresh object (\<^verbatim>\<open>prev[key] = ...\<close>).
\<close>

fun parseInput :: "evaluator \<Rightarrow> val \<Rightarrow> obj \<Rightarrow> error + val"
  and parseInput_elems :: "evaluator \<Rightarrow> val list \<Rightarrow> obj \<Rightarrow> error + val list"
  and parseInput_entries :: "evaluator \<Rightarrow> (string \<times> val) list \<Rightarrow> obj \<Rightarrow> obj \<Rightarrow> error + obj" where
  "parseInput evaluate VUndefined outputs = Inr VUndefined"
| "parseInput evaluate VNull outputs = Inr VNull"
| "parseInput evaluate (VBool b) outputs = Inr (VBool b)"
| "parseInput evaluate (VNum n) outputs = Inr (VNum n)"
| "parseInput evaluate (VStr s) outputs =
     (if s = [] then Inr (VStr s) else parseString evaluate s outputs)"
| "parseInput evaluate (VArr xs) outputs = map_sum id VArr (parseInput_elems evaluate xs outputs)"
| "parseInput evaluate (VObj kvs) outputs =
     (if isEmptyObj kvs then Inr VUndefined
      else map_sum id VObj (parseInput_entries evaluate kvs outputs []))"
| "parseInput evaluate (VDate d t) outputs =
     (if isEmptyObj [] then Inr VUndefined else Inr (VObj []))"
| "parseInput_elems evaluate [] outputs = Inr []"
| "parseInput_elems evaluate (x # xs) outputs =
     (case parseInput evaluate x outputs of
        Inl e \<Rightarrow> Inl e
      | Inr y \<Rightarrow> map_sum id ((#) y) (parseInput_elems evaluate xs outputs))"
| "parseInput_entries evaluate [] outputs prev = Inr prev"
| "parseInput_entries evaluate (kv # kvs) outputs prev =
     (case parseInput evaluate (snd kv) outputs of
        Inl e \<Rightarrow> Inl e
      | Inr y \<Rightarrow> parseInput_entries evaluate kvs outputs (obj_assign prev (fst kv) y))"

text \<open>
  \<^verbatim>\<open>parseStepInputs\<close>: every entry of the inputs is resolved and assigned to a fresh object
  (\<^verbatim>\<open>parsedInputs[key] = ...\<close>).
\<close>

fun parseStepInputs_loop :: "evaluator \<Rightarrow> (string \<times> val) list \<Rightarrow> obj \<Rightarrow> obj \<Rightarrow> error + obj" where
  "parseStepInputs_loop evaluate [] outputs parsedInputs = Inr parsedInputs"
| "parseStepInputs_loop evaluate (kv # kvs) outputs parsedInputs =
     (case parseInput evaluate (snd kv) outputs of
        Inl e \<Rightarrow> Inl e
      | Inr y \<Rightarrow> parseStepInputs_loop evaluate kvs outputs (obj_assign parsedInputs (fst kv) y))"

definition parseStepInputs :: "evaluator \<Rightarrow> obj \<Rightarrow> obj \<Rightarrow> error + obj" where
  "parseStepInputs evaluate inputs outputs = parseStepInputs_loop evaluate inputs outputs []"

section \<open>Workflow configuration: update-time validation\<close>

text \<open>
  \<^verbatim>\<open>WorkflowService.updateOne\<close> (workflow.service.ts). The generic persistence layer
  (\<^verbatim>\<open>BaseService\<close>) is a collaborator: its lookup and its update are parameters, acting on
  a store of workflows. An update carries the fields it sets.
\<close>

record Workflow =
  wf_id :: oid
  wf_owner :: oid
  wf_name :: string
  wf_runOnFailure :: "oid option"

record WorkflowPatch =
  patch_name :: "string option"
  patch_runOnFailure :: "oid option"

type_synonym wfstore = "oid \<Rightarrow> Workflow option"

record BaseService =
  base_findById :: "wfstore \<Rightarrow> oid \<Rightarrow> Workflow option"
  base_updateOne :: "wfstore \<Rightarrow> oid \<Rightarrow> WorkflowPatch \<Rightarrow> (error + Workflow) \<times> wfstore"

definition updateOne ::
  "BaseService \<Rightarrow> oid \<Rightarrow> WorkflowPatch \<Rightarrow> wfstore \<Rightarrow> (error + Workflow) \<times> wfstore" where
  "updateOne base ident record store =
     (case base_findById base store ident of
        None \<Rightarrow> (Inl (NotFoundException []), store)
      | Some workflow \<Rightarrow>
          if patch_runOnFailure record = Some (wf_id workflow)
          then (Inl (BadRequestException ''Run On Failure cannot be set with the same workflow ID.''), store)
          else base_updateOne base store ident record)"

section \<open>Runner: entities, collaborators and state\<close>

text \<open>
  The entities of runner.service.ts, with the fields the runner reads. An edge to a next
  action carries an optional condition; the list of edges itself may be missing.
\<close>

record NextAction =
  na_action :: oid
  na_condition :: "string option"

record WorkflowAction =
  wa_id :: oid
  wa_owner :: oid
  wa_workflow :: oid
  wa_integrationAction :: oid
  wa_credentials :: "string option"
  wa_inputs :: obj
  wa_nextActions :: "NextAction list option"

record IntegrationAction =
  ia_key :: string
  ia_name :: string
  ia_integration :: oid

record TriggerPopulate =
  tp_operationId :: "string option"
  tp_inputs :: obj

record IntegrationTrigger =
  it_id :: oid
  it_name :: string
  it_idKey :: "string option"
  it_integration :: oid
  it_triggerPopulate :: "TriggerPopulate option"

record Integration =
  in_key :: string
  in_name :: string
  in_parentKey :: "string option"

record WorkflowTrigger =
  wt_id :: oid
  wt_owner :: oid
  wt_workflow :: oid
  wt_integrationTrigger :: oid
  wt_credentials :: "string option"
  wt_inputs :: obj
  wt_lastId :: "string option"

record WorkflowRun =
  run_id :: oid
  run_owner :: oid
  run_workflow :: oid
  run_startedBy :: string

record AccountCredential =
  ac_encryptedCredentials :: string
  ac_fields :: obj
  ac_integrationAccount :: "oid option"

record IntegrationAccount =
  iacc_key :: string

record WorkflowSleep =
  ws_workflowRun :: oid
  ws_workflowAction :: oid
  ws_nextActionInputs :: "obj option"
  ws_sleepUntil :: string

text \<open>
  The result of an operation: its outputs, the branch condition it returned
  (\<^verbatim>\<open>undefined\<close> when there is none) and the instant until which the run sleeps, if any.
\<close>

record RunResponse =
  rr_outputs :: obj
  rr_condition :: val
  rr_sleepUntil :: "string option"

datatype operation = TriggerOperation IntegrationTrigger | ActionOperation IntegrationAction

record OperationRunOptions =
  opt_integration :: Integration
  opt_integrationAccount :: "IntegrationAccount option"
  opt_operation :: operation
  opt_inputs :: obj
  opt_credentials :: obj
  opt_accountCredential :: "AccountCredential option"

text \<open>An item of a trigger poll; its identifier is a string or a number.\<close>

datatype itemId = StrId string | NumId int

fun itemId_toString :: "itemId \<Rightarrow> string" where
  "itemId_toString (StrId s) = s"
| "itemId_toString (NumId n) = dec_int n"

record TriggerItem =
  ti_id :: itemId
  ti_item :: obj

text \<open>
  The collaborators: the lookups of the persistence services, the configuration, the
  decryption of stored credentials (with the parsing of the decrypted JSON text), the
  operation runner, the expression evaluator, and \<^verbatim>\<open>extractTriggerItems\<close> of the trigger
  utilities, which is not among the sources. All of them are parameters.
\<close>

record env =
  env_evaluate :: evaluator
  env_findRootActions :: "oid \<Rightarrow> WorkflowAction list"
  env_findAction :: "oid \<Rightarrow> WorkflowAction option"
  env_findActionsByIds :: "oid list \<Rightarrow> WorkflowAction list"
  env_findIntegrationAction :: "oid \<Rightarrow> IntegrationAction option"
  env_findIntegrationActionByKey :: "string option \<Rightarrow> IntegrationAction option"
  env_findIntegrationTrigger :: "oid \<Rightarrow> IntegrationTrigger option"
  env_findIntegration :: "oid \<Rightarrow> Integration option"
  env_findWorkflow :: "oid \<Rightarrow> Workflow option"
  env_findRun :: "oid \<Rightarrow> WorkflowRun option"
  env_findAccountCredential :: "string \<Rightarrow> AccountCredential option"
  env_findIntegrationAccount :: "oid \<Rightarrow> IntegrationAccount option"
  env_credentialsKey :: "string option"
  env_decrypt :: "string \<Rightarrow> string \<Rightarrow> error + obj"
  env_run :: "string \<Rightarrow> OperationRunOptions \<Rightarrow> error + RunResponse"
  env_extractTriggerItems :: "string \<Rightarrow> obj \<Rightarrow> TriggerItem list"

text \<open>
  What the runner writes through the run, action and trigger services, which are not among
  the sources: the calls that record the progress of runs and actions, in the order in which
  they are made, the persisted continuations, the cursor (\<^verbatim>\<open>lastId\<close>) stored for every
  trigger, and the number of runs created so far.
\<close>

datatype event =
    CreateRun WorkflowRun
  | AddRunningAction oid oid string string
  | MarkActionAsCompleted oid oid
  | MarkActionAsFailed oid oid string "string option"
  | MarkTriggerAsCompleted oid bool "string list"
  | MarkTriggerAsFailed oid string "string option"
  | MarkWorkflowRunAsCompleted oid
  | WakeUpWorkflowRun oid

record state =
  events :: "event list"
  sleeps :: "WorkflowSleep list"
  cursors :: "oid \<Rightarrow> string option"
  runCount :: nat

definition add_event :: "event \<Rightarrow> state \<Rightarrow> state" where
  "add_event e st = st\<lparr>events := events st @ [e]\<rparr>"

text \<open>
  An asynchronous function of the runner maps a state to an outcome and a new state: the
  outcome is \<open>Inl\<close> of the error it threw or \<open>Inr\<close> of what it returned. \<open>None\<close> stands
  for an execution that has not come to an end within the number of nested node executions
  it was allowed.
\<close>

type_synonym 'a result = "((error + 'a) \<times> state) option"
type_synonym treeRunner = "WorkflowAction \<Rightarrow> obj \<Rightarrow> WorkflowRun \<Rightarrow> state \<Rightarrow> unit result"

text \<open>The outcome of an execution together with the calls recorded up to its end.\<close>

definition result_events :: "'a result \<Rightarrow> ((error + 'a) \<times> event list) option" where
  "result_events res = (case res of None \<Rightarrow> None | Some (r, s) \<Rightarrow> Some (r, events s))"

fun error_message :: "error \<Rightarrow> string" where
  "error_message (NotFoundException m) = m"
| "error_message (BadRequestException m) = m"
| "error_message (InternalServerErrorException m) = m"
| "error_message (JsError m) = m"
| "error_message (TypeError m) = m"
| "error_message (OperationError m r) = m"
| "error_message (EvaluationError m) = m"

text \<open>\<^verbatim>\<open>e.response?.text || undefined\<close>\<close>

fun error_response :: "error \<Rightarrow> string option" where
  "error_response (OperationError m r) = (if str_truthy r then r else None)"
| "error_response e = None"

text \<open>
  Modelled from the spec: \<^verbatim>\<open>createOne\<close> of the run service is not among the sources. It
  creates one run with the given owner, workflow and starting reason; the new run is
  identified by the number of runs created before it.
\<close>

definition createOne :: "oid \<Rightarrow> oid \<Rightarrow> string \<Rightarrow> state \<Rightarrow> WorkflowRun \<times> state" where
  "createOne owner workflow startedBy st =
     (let run = \<lparr>run_id = dec_nat (runCount st), run_owner = owner, run_workflow = workflow,
                 run_startedBy = startedBy\<rparr>
      in (run, add_event (CreateRun run) (st\<lparr>runCount := Suc (runCount st)\<rparr>)))"

text \<open>
  Modelled from the spec: \<^verbatim>\<open>sleepWorkflowRun\<close> of the run service is not among the
  sources. It persists one continuation holding the run, the node, the output bag and the
  wake instant.
\<close>

definition sleepWorkflowRun :: "WorkflowRun \<Rightarrow> WorkflowAction \<Rightarrow> obj \<Rightarrow> string \<Rightarrow> state \<Rightarrow> state" where
  "sleepWorkflowRun workflowRun workflowAction nextActionInputs sleepUntil st =
     st\<lparr>sleeps := sleeps st @
          [\<lparr>ws_workflowRun = run_id workflowRun, ws_workflowAction = wa_id workflowAction,
            ws_nextActionInputs = Some nextActionInputs, ws_sleepUntil = sleepUntil\<rparr>]\<rparr>"

section \<open>Runner: executing the action tree\<close>

text \<open>
  \<^verbatim>\<open>Promise.all\<close> over branches started together. Every branch runs to its end (a rejected
  sibling cancels nothing); the joint outcome is normal when every branch ended normally and
  the first error otherwise. The state after the join holds the writes of all branches; the
  writes of one branch appear in their own order, branch after branch.
\<close>

fun promise_all :: "(state \<Rightarrow> unit result) list \<Rightarrow> state \<Rightarrow> unit result" where
  "promise_all [] st = Some (Inr (), st)"
| "promise_all (p # ps) st =
     (case p st of
        None \<Rightarrow> None
      | Some (r, st1) \<Rightarrow>
          (case promise_all ps st1 of
             None \<Rightarrow> None
           | Some (r2, st2) \<Rightarrow> Some (case r of Inl e \<Rightarrow> Inl e | Inr u \<Rightarrow> r2, st2)))"

text \<open>
  \<^verbatim>\<open>runWorkflowActions\<close>: for every seeded output bag in turn, all root actions are run and
  awaited together; after the last bag the run is marked as completed. An error thrown by a
  root branch leaves the loop.
\<close>

fun runWorkflowActions_loop ::
  "treeRunner \<Rightarrow> WorkflowAction list \<Rightarrow> obj list \<Rightarrow> WorkflowRun \<Rightarrow> state \<Rightarrow> unit result" where
  "runWorkflowActions_loop rec rootActions [] workflowRun st = Some (Inr (), st)"
| "runWorkflowActions_loop rec rootActions (triggerOutputs # rest) workflowRun st =
     (case promise_all (map (\<lambda>action. rec action triggerOutputs workflowRun) rootActions) st of
        None \<Rightarrow> None
      | Some (Inl e, st1) \<Rightarrow> Some (Inl e, st1)
      | Some (Inr u, st1) \<Rightarrow> runWorkflowActions_loop rec rootActions rest workflowRun st1)"

definition runWorkflowActions ::
  "treeRunner \<Rightarrow> WorkflowAction list \<Rightarrow> obj list \<Rightarrow> WorkflowRun \<Rightarrow> state \<Rightarrow> unit result" where
  "runWorkflowActions rec rootActions triggerOutputsList workflowRun st =
     (case runWorkflowActions_loop rec rootActions triggerOutputsList workflowRun st of
        None \<Rightarrow> None
      | Some (Inl e, st1) \<Rightarrow> Some (Inl e, st1)
      | Some (Inr u, st1) \<Rightarrow>
          Some (Inr (), add_event (MarkWorkflowRunAsCompleted (run_id workflowRun)) st1))"

definition startWorkflowRun ::
  "treeRunner \<Rightarrow> env \<Rightarrow> oid \<Rightarrow> obj \<Rightarrow> WorkflowRun \<Rightarrow> state \<Rightarrow> unit result" where
  "startWorkflowRun rec env workflowId triggerOutputs workflowRun st =
     runWorkflowActions rec (env_findRootActions env workflowId) [triggerOutputs] workflowRun st"

text \<open>Failure propagation: a workflow that names a failure workflow gets a new run of it.\<close>

definition runWorkflowOnFailure :: "treeRunner \<Rightarrow> env \<Rightarrow> oid \<Rightarrow> state \<Rightarrow> unit result" where
  "runWorkflowOnFailure rec env workflowId st =
     (case env_findWorkflow env workflowId of
        None \<Rightarrow> Some (Inr (), st)
      | Some workflow \<Rightarrow>
          (case wf_runOnFailure workflow of
             None \<Rightarrow> Some (Inr (), st)
           | Some target \<Rightarrow>
               (case createOne (wf_owner workflow) target ''workflowFailure'' st of
                  (workflowRun, st1) \<Rightarrow> startWorkflowRun rec env target [] workflowRun st1)))"

definition onTriggerFailure ::
  "treeRunner \<Rightarrow> env \<Rightarrow> oid \<Rightarrow> WorkflowRun \<Rightarrow> string \<Rightarrow> string option \<Rightarrow> state \<Rightarrow> unit result" where
  "onTriggerFailure rec env workflowId workflowRun errorMessage errorResponse st =
     runWorkflowOnFailure rec env workflowId
       (add_event (MarkTriggerAsFailed (run_id workflowRun) errorMessage errorResponse) st)"

definition onActionFailure ::
  "treeRunner \<Rightarrow> env \<Rightarrow> oid \<Rightarrow> WorkflowRun \<Rightarrow> oid \<Rightarrow> string \<Rightarrow> string option \<Rightarrow> state
     \<Rightarrow> unit result" where
  "onActionFailure rec env workflowId workflowRun workflowAction errorMessage errorResponse st =
     runWorkflowOnFailure rec env workflowId
       (add_event (MarkActionAsFailed (run_id workflowRun) workflowAction errorMessage errorResponse) st)"

text \<open>
  \<^verbatim>\<open>getCredentialsAndIntegrationAccount\<close>. With an identifier whose stored credential is
  missing, the caller's callback runs first and the not-found error is thrown after it.
\<close>

record Credentials =
  cr_credentials :: obj
  cr_accountCredential :: "AccountCredential option"
  cr_integrationAccount :: "IntegrationAccount option"

definition obj_merge :: "obj \<Rightarrow> obj \<Rightarrow> obj" where
  "obj_merge a b = foldl (\<lambda>acc kv. obj_set acc (fst kv) (snd kv)) a b"

definition getCredentialsAndIntegrationAccount ::
  "env \<Rightarrow> string option \<Rightarrow> (state \<Rightarrow> unit result) \<Rightarrow> state \<Rightarrow> Credentials result" where
  "getCredentialsAndIntegrationAccount env credentialsId onError st =
     (case credentialsId of
        None \<Rightarrow>
          Some (Inr \<lparr>cr_credentials = [], cr_accountCredential = None, cr_integrationAccount = None\<rparr>, st)
      | Some cid \<Rightarrow>
          if cid = [] then
            Some (Inr \<lparr>cr_credentials = [], cr_accountCredential = None, cr_integrationAccount = None\<rparr>, st)
          else
            (case env_findAccountCredential env cid of
               None \<Rightarrow>
                 (case onError st of
                    None \<Rightarrow> None
                  | Some (Inl e, st1) \<Rightarrow> Some (Inl e, st1)
                  | Some (Inr u, st1) \<Rightarrow>
                      Some (Inl (NotFoundException ''Account credentials not found''), st1))
             | Some accountCredential \<Rightarrow>
                 (case env_credentialsKey env of
                    None \<Rightarrow> Some (Inl (InternalServerErrorException ''Credentials key not set''), st)
                  | Some key \<Rightarrow>
                      if key = []
                      then Some (Inl (InternalServerErrorException ''Credentials key not set''), st)
                      else
                        (case env_decrypt env (ac_encryptedCredentials accountCredential) key of
                           Inl e \<Rightarrow> Some (Inl e, st)
                         | Inr unencryptedCredentials \<Rightarrow>
                             Some (Inr \<lparr>cr_credentials =
                                          obj_merge (ac_fields accountCredential) unencryptedCredentials,
                                        cr_accountCredential = Some accountCredential,
                                        cr_integrationAccount =
                                          (case ac_integrationAccount accountCredential of
                                             None \<Rightarrow> None
                                           | Some i \<Rightarrow> env_findIntegrationAccount env i)\<rparr>, st)))))"

text \<open>
  The edges that fire after a node: an edge without a (truthy) condition, and an edge whose
  condition is the string form of the condition the operation returned.
\<close>

definition selectNextActions :: "WorkflowAction \<Rightarrow> RunResponse \<Rightarrow> NextAction list" where
  "selectNextActions workflowAction runResponse =
     filter (\<lambda>nextAction.
               if \<not> str_truthy (na_condition nextAction) then True
               else na_condition nextAction = Some (js_toString (rr_condition runResponse)))
            (case wa_nextActions workflowAction of None \<Rightarrow> [] | Some nas \<Rightarrow> nas)"

text \<open>The loop over the selected edges: each target is looked up and run, one after the other.\<close>

fun runNextActions ::
  "treeRunner \<Rightarrow> env \<Rightarrow> NextAction list \<Rightarrow> obj \<Rightarrow> WorkflowRun \<Rightarrow> state \<Rightarrow> unit result" where
  "runNextActions rec env [] nextActionInputs workflowRun st = Some (Inr (), st)"
| "runNextActions rec env (workflowNextAction # rest) nextActionInputs workflowRun st =
     (case env_findAction env (na_action workflowNextAction) of
        None \<Rightarrow>
          Some (Inl (JsError (''WorkflowAction '' @ na_action workflowNextAction @ '' not found'')), st)
      | Some nextAction \<Rightarrow>
          (case rec nextAction nextActionInputs workflowRun st of
             None \<Rightarrow> None
           | Some (Inl e, st1) \<Rightarrow> Some (Inl e, st1)
           | Some (Inr u, st1) \<Rightarrow> runNextActions rec env rest nextActionInputs workflowRun st1))"

definition definitionKey :: "Integration \<Rightarrow> string" where
  "definitionKey integration =
     (case in_parentKey integration of None \<Rightarrow> in_key integration | Some k \<Rightarrow> k)"

text \<open>
  \<^verbatim>\<open>runWorkflowActionsTree\<close>, the execution of one node. The executions of the nodes below
  it, and of the nodes of a failure workflow, go through \<open>rec\<close>.
\<close>

definition runWorkflowActionsTree ::
  "treeRunner \<Rightarrow> env \<Rightarrow> WorkflowAction \<Rightarrow> obj \<Rightarrow> WorkflowRun \<Rightarrow> state \<Rightarrow> unit result" where
  "runWorkflowActionsTree rec env workflowAction previousOutputs workflowRun st =
     (case env_findIntegrationAction env (wa_integrationAction workflowAction) of
        None \<Rightarrow>
          Some (Inl (NotFoundException
                  (''IntegrationAction '' @ wa_integrationAction workflowAction @ '' not found'')), st)
      | Some integrationAction \<Rightarrow>
     (case env_findIntegration env (ia_integration integrationAction) of
        None \<Rightarrow>
          Some (Inl (NotFoundException
                  (''Integration '' @ ia_integration integrationAction @ '' not found'')), st)
      | Some integration \<Rightarrow>
     (case getCredentialsAndIntegrationAccount env (wa_credentials workflowAction)
             (onActionFailure rec env (wa_workflow workflowAction) workflowRun
                (wa_id workflowAction) ''Credentials not found'' None)
             (add_event (AddRunningAction (run_id workflowRun) (wa_id workflowAction)
                           (in_name integration) (ia_name integrationAction)) st) of
        None \<Rightarrow> None
      | Some (Inl e, st1) \<Rightarrow> Some (Inl e, st1)
      | Some (Inr creds, st1) \<Rightarrow>
     (case parseStepInputs (env_evaluate env) (wa_inputs workflowAction) previousOutputs of
        Inl e \<Rightarrow>
          onActionFailure rec env (wa_workflow workflowAction) workflowRun (wa_id workflowAction)
            (''Invalid inputs ('' @ error_message e @ '')'') None st1
      | Inr inputs \<Rightarrow>
     (case env_run env (definitionKey integration)
             \<lparr>opt_integration = integration,
              opt_integrationAccount = cr_integrationAccount creds,
              opt_operation = ActionOperation integrationAction,
              opt_inputs = inputs,
              opt_credentials = cr_credentials creds,
              opt_accountCredential = cr_accountCredential creds\<rparr> of
        Inl e \<Rightarrow>
          onActionFailure rec env (wa_workflow workflowAction) workflowRun (wa_id workflowAction)
            (error_message e) (error_response e) st1
      | Inr runResponse \<Rightarrow>
          (let st2 = add_event (MarkActionAsCompleted (run_id workflowRun) (wa_id workflowAction)) st1;
               nextActionInputs = obj_set previousOutputs (wa_id workflowAction)
                                    (VObj (rr_outputs runResponse))
           in case rr_sleepUntil runResponse of
                Some sleepUntil \<Rightarrow>
                  Some (Inr (), sleepWorkflowRun workflowRun workflowAction nextActionInputs
                                  sleepUntil st2)
              | None \<Rightarrow>
                  runNextActions rec env (selectNextActions workflowAction runResponse)
                    nextActionInputs workflowRun st2))))))"

text \<open>
  The recursion of \<^verbatim>\<open>runWorkflowActionsTree\<close>, bounded by the number of node executions
  that may be nested in one another.
\<close>

fun treeRunner :: "nat \<Rightarrow> env \<Rightarrow> treeRunner" where
  "treeRunner 0 env = (\<lambda>workflowAction previousOutputs workflowRun st. None)"
| "treeRunner (Suc n) env = runWorkflowActionsTree (treeRunner n env) env"

text \<open>
  \<^verbatim>\<open>wakeUpWorkflowRun\<close>: the next actions of the sleeping node are looked up together and
  run, awaited together, with the bag stored in the continuation.
\<close>

definition wakeUpWorkflowRun :: "treeRunner \<Rightarrow> env \<Rightarrow> WorkflowSleep \<Rightarrow> state \<Rightarrow> unit result" where
  "wakeUpWorkflowRun rec env workflowSleep st =
     (case env_findRun env (ws_workflowRun workflowSleep) of
        None \<Rightarrow> Some (Inr (), st)
      | Some workflowRun \<Rightarrow>
     (case env_findAction env (ws_workflowAction workflowSleep) of
        None \<Rightarrow> Some (Inr (), st)
      | Some workflowAction \<Rightarrow>
          (let st1 = add_event (WakeUpWorkflowRun (run_id workflowRun)) st;
               nextActionInputs =
                 (case ws_nextActionInputs workflowSleep of None \<Rightarrow> [] | Some bag \<Rightarrow> bag)
           in case wa_nextActions workflowAction of
                None \<Rightarrow> Some (Inl (TypeError ''Cannot read properties of undefined''), st1)
              | Some nas \<Rightarrow>
                  (case promise_all
                          (map (\<lambda>action. rec action nextActionInputs workflowRun)
                             (env_findActionsByIds env (map na_action nas))) st1 of
                     None \<Rightarrow> None
                   | Some (Inl e, st2) \<Rightarrow> Some (Inl e, st2)
                   | Some (Inr u, st2) \<Rightarrow>
                       Some (Inr (),
                             add_event (MarkWorkflowRunAsCompleted (run_id workflowRun)) st2)))))"

section \<open>Runner: checking a trigger\<close>

text \<open>\<^verbatim>\<open>Array.prototype.indexOf\<close>: the first position of an element, \<open>None\<close> for \<open>-1\<close>.\<close>

fun array_indexOf :: "'a list \<Rightarrow> 'a \<Rightarrow> nat option" where
  "array_indexOf [] x = None"
| "array_indexOf (y # ys) x = (if y = x then Some 0 else map_option Suc (array_indexOf ys x))"

definition triggerIdsOf :: "TriggerItem list \<Rightarrow> string list" where
  "triggerIdsOf triggerItems = map (\<lambda>item. itemId_toString (ti_id item)) triggerItems"

text \<open>
  The deduplication of \<^verbatim>\<open>runWorkflowTriggerCheck\<close>: which of the polled items, listed
  newest first, are new with respect to the cursor \<^verbatim>\<open>lastId\<close> of the trigger.
\<close>

definition newTriggerItems :: "string option \<Rightarrow> TriggerItem list \<Rightarrow> TriggerItem list" where
  "newTriggerItems lastId triggerItems =
     (case lastId of
        None \<Rightarrow> take 1 triggerItems
      | Some l \<Rightarrow>
          if l = [] then take 1 triggerItems
          else (case array_indexOf (triggerIdsOf triggerItems) l of
                  None \<Rightarrow> triggerItems
                | Some lastItemIndex \<Rightarrow> take lastItemIndex triggerItems))"

text \<open>\<^verbatim>\<open>populateTrigger\<close> and the loop that merges its outputs under every new item.\<close>

definition populateTrigger :: "env \<Rightarrow> string \<Rightarrow> obj \<Rightarrow> OperationRunOptions \<Rightarrow> error + obj" where
  "populateTrigger env definition outputs opts =
     (let triggerPopulate =
            (case opt_operation opts of
               TriggerOperation t \<Rightarrow> it_triggerPopulate t
             | ActionOperation a \<Rightarrow> None);
          integrationAction =
            env_findIntegrationActionByKey env
              (case triggerPopulate of None \<Rightarrow> None | Some tp \<Rightarrow> tp_operationId tp)
      in case triggerPopulate of
           None \<Rightarrow> Inr []
         | Some tp \<Rightarrow>
             (case integrationAction of
                None \<Rightarrow> Inr []
              | Some ia \<Rightarrow>
                  (case parseStepInputs (env_evaluate env) (tp_inputs tp)
                          [(''inputs'', VObj (opt_inputs opts)), (''outputs'', VObj outputs)] of
                     Inl e \<Rightarrow> Inl e
                   | Inr parsedInputs \<Rightarrow>
                       (case env_run env definition
                               (opts\<lparr>opt_inputs := parsedInputs,
                                     opt_operation := ActionOperation ia\<rparr>) of
                          Inl e \<Rightarrow> Inl e
                        | Inr populateOutputs \<Rightarrow> Inr (rr_outputs populateOutputs)))))"

fun populateItems ::
  "env \<Rightarrow> string \<Rightarrow> OperationRunOptions \<Rightarrow> TriggerItem list \<Rightarrow> error + TriggerItem list" where
  "populateItems env definition opts [] = Inr []"
| "populateItems env definition opts (newItem # rest) =
     (case populateTrigger env definition (ti_item newItem) opts of
        Inl e \<Rightarrow> Inl e
      | Inr populatedOutputs \<Rightarrow>
          map_sum id ((#) (newItem\<lparr>ti_item := obj_merge populatedOutputs (ti_item newItem)\<rparr>))
            (populateItems env definition opts rest))"

definition populateConfigured :: "IntegrationTrigger \<Rightarrow> bool" where
  "populateConfigured integrationTrigger =
     (case it_triggerPopulate integrationTrigger of
        None \<Rightarrow> False
      | Some tp \<Rightarrow> str_truthy (tp_operationId tp))"

definition runWorkflowTriggerCheck ::
  "treeRunner \<Rightarrow> env \<Rightarrow> WorkflowTrigger \<Rightarrow> string \<Rightarrow> state \<Rightarrow> unit result" where
  "runWorkflowTriggerCheck rec env workflowTrigger startedBy st =
     (if env_findRootActions env (wt_workflow workflowTrigger) = [] then Some (Inr (), st)
      else
     (case env_findIntegrationTrigger env (wt_integrationTrigger workflowTrigger) of
        None \<Rightarrow>
          Some (Inl (NotFoundException
                  (''IntegrationTrigger '' @ wt_integrationTrigger workflowTrigger @ '' not found'')), st)
      | Some integrationTrigger \<Rightarrow>
     (if \<not> str_truthy (it_idKey integrationTrigger)
      then Some (Inl (JsError (''Tried to run an integration trigger without idKey (id: ''
                                 @ it_id integrationTrigger @ '')'')), st)
      else
     (case env_findIntegration env (it_integration integrationTrigger) of
        None \<Rightarrow>
          Some (Inl (NotFoundException
                  (''Integration '' @ it_integration integrationTrigger @ '' not found'')), st)
      | Some integration \<Rightarrow>
     (case createOne (wt_owner workflowTrigger) (wt_workflow workflowTrigger) startedBy st of
        (workflowRun, st1) \<Rightarrow>
     (case getCredentialsAndIntegrationAccount env (wt_credentials workflowTrigger)
             (onTriggerFailure rec env (wt_workflow workflowTrigger) workflowRun
                ''Credentials not found'' None) st1 of
        None \<Rightarrow> None
      | Some (Inl e, st2) \<Rightarrow> Some (Inl e, st2)
      | Some (Inr creds, st2) \<Rightarrow>
     (case parseStepInputs (env_evaluate env) (wt_inputs workflowTrigger) [] of
        Inl e \<Rightarrow>
          onTriggerFailure rec env (wt_workflow workflowTrigger) workflowRun
            (''Invalid inputs ('' @ error_message e @ '')'') None st2
      | Inr inputs \<Rightarrow>
     (let opts = \<lparr>opt_integration = integration,
                  opt_integrationAccount = cr_integrationAccount creds,
                  opt_operation = TriggerOperation integrationTrigger,
                  opt_inputs = inputs,
                  opt_credentials = cr_credentials creds,
                  opt_accountCredential = cr_accountCredential creds\<rparr>
      in case env_run env (definitionKey integration) opts of
           Inl e \<Rightarrow>
             onTriggerFailure rec env (wt_workflow workflowTrigger) workflowRun
               (error_message e) (error_response e) st2
         | Inr runResponse \<Rightarrow>
     (let triggerItems =
            env_extractTriggerItems env
              (case it_idKey integrationTrigger of None \<Rightarrow> [] | Some k \<Rightarrow> k)
              (rr_outputs runResponse);
          triggerIds = triggerIdsOf triggerItems;
          newItems = newTriggerItems (wt_lastId workflowTrigger) triggerItems
      in if newItems = []
         then Some (Inr (),
                    add_event (MarkTriggerAsCompleted (run_id workflowRun) False (take 1 triggerIds))
                      st2)
         else
           (case (if populateConfigured integrationTrigger
                  then populateItems env (definitionKey integration) opts newItems
                  else Inr newItems) of
              Inl e \<Rightarrow> Some (Inl e, st2)
            | Inr populated \<Rightarrow>
                runWorkflowActions rec (env_findRootActions env (wt_workflow workflowTrigger))
                  (map (\<lambda>data. [(wt_id workflowTrigger, VObj (ti_item data))]) (rev populated))
                  workflowRun
                  ((add_event (MarkTriggerAsCompleted (run_id workflowRun) True triggerIds) st2)
                     \<lparr>cursors :=
                        (cursors st2)
                          (wt_id workflowTrigger :=
                             (case triggerIds of [] \<Rightarrow> None | newest # older \<Rightarrow> Some newest))\<rparr>)))))))))))"


section \<open>Predicates used in the proofs\<close>

text \<open>
  The matching of a template as the specification of \<^verbatim>\<open>extract\<close> words it: three stars
  in a row are a wildcard, every other character stands for itself; a wildcard takes a
  non-empty text without line terminators; the template matches a string when it denotes
  some part of it.
\<close>

function template_atoms :: "string \<Rightarrow> atom list" where
  "template_atoms [] = []"
| "template_atoms (c # cs) =
     (if starts_with (c # cs) ''***'' then Wild # template_atoms (drop 2 cs)
      else Lit c # template_atoms cs)"
  by pat_completeness auto
termination
  by (relation "measure length") auto

fun denotes :: "atom list \<Rightarrow> string \<Rightarrow> bool" where
  "denotes [] s = (s = [])"
| "denotes (Lit c # as) s = (\<exists>r. s = c # r \<and> denotes as r)"
| "denotes (Wild # as) s = (\<exists>w r. s = w @ r \<and> w \<noteq> [] \<and> list_all dot_char w \<and> denotes as r)"

definition template_matches :: "string \<Rightarrow> string \<Rightarrow> bool" where
  "template_matches template str =
     (\<exists>pre mid post. str = pre @ mid @ post \<and> denotes (template_atoms template) mid)"


text \<open>A function of the runner that leaves the cursors of all triggers as they are.\<close>

definition keeps_cursors :: "(state \<Rightarrow> 'a result) \<Rightarrow> bool" where
  "keeps_cursors f = (\<forall>s x s'. f s = Some (x, s') \<longrightarrow> cursors s' = cursors s)"

definition rec_keeps_cursors :: "treeRunner \<Rightarrow> bool" where
  "rec_keeps_cursors rec = (\<forall>a b r. keeps_cursors (rec a b r))"




section \<open>An example configuration\<close>

text \<open>
  A small workflow that the concrete statements below are evaluated on. Every action uses the
  integration action named after it. The operation of \<open>f1\<close> fails, the operation of
  \<open>s1\<close> asks to sleep, every other operation returns one output and the condition
  \<^verbatim>\<open>true\<close>. The inputs of \<open>g1\<close> hold an expression that the evaluator rejects, and the
  credentials that \<open>b1\<close> names are not stored. A poll of the trigger returns three items.
\<close>

text \<open>An evaluator that fails and reports the expression it was handed.\<close>

definition echo_evaluate :: evaluator where
  "echo_evaluate table expression = Inl (EvaluationError expression)"

definition demo_response :: RunResponse where
  "demo_response = \<lparr>rr_outputs = [(''n'', VNum 1)], rr_condition = VBool True, rr_sleepUntil = None\<rparr>"

definition demo_action :: "oid \<Rightarrow> string option \<Rightarrow> obj \<Rightarrow> NextAction list option \<Rightarrow> WorkflowAction" where
  "demo_action ident credentials inputs nextActions =
     \<lparr>wa_id = ident, wa_owner = ''u1'', wa_workflow = ''w1'', wa_integrationAction = ''ia-'' @ ident,
      wa_credentials = credentials, wa_inputs = inputs, wa_nextActions = nextActions\<rparr>"

definition demo_a1 :: WorkflowAction where
  "demo_a1 = demo_action ''a1'' None []
     (Some [\<lparr>na_action = ''b1'', na_condition = None\<rparr>,
            \<lparr>na_action = ''c1'', na_condition = Some ''true''\<rparr>,
            \<lparr>na_action = ''d1'', na_condition = Some ''false''\<rparr>])"

definition demo_a2 :: WorkflowAction where
  "demo_a2 = demo_action ''a2'' None []
     (Some [\<lparr>na_action = ''f1'', na_condition = None\<rparr>,
            \<lparr>na_action = ''g1'', na_condition = None\<rparr>,
            \<lparr>na_action = ''c1'', na_condition = None\<rparr>])"

definition demo_a3 :: WorkflowAction where
  "demo_a3 = demo_action ''a3'' None []
     (Some [\<lparr>na_action = ''c1'', na_condition = None\<rparr>,
            \<lparr>na_action = ''d1'', na_condition = Some ''true''\<rparr>,
            \<lparr>na_action = ''e1'', na_condition = Some ''false''\<rparr>])"

definition demo_b1 :: WorkflowAction where
  "demo_b1 = demo_action ''b1'' (Some ''missing'') [] None"

definition demo_f1 :: WorkflowAction where
  "demo_f1 = demo_action ''f1'' None [] None"

definition demo_g1 :: WorkflowAction where
  "demo_g1 = demo_action ''g1'' None [(''x'', VStr ''{{ a2.n + 1 }}'')] None"

definition demo_s1 :: WorkflowAction where
  "demo_s1 = demo_action ''s1'' None []
     (Some [\<lparr>na_action = ''c1'', na_condition = Some ''false''\<rparr>,
            \<lparr>na_action = ''d1'', na_condition = None\<rparr>])"

definition demo_actions :: "WorkflowAction list" where
  "demo_actions =
     [demo_a1, demo_a2, demo_a3, demo_b1,
      demo_action ''c1'' None [] None,
      demo_action ''d1'' None [] None,
      demo_action ''e1'' None [] None,
      demo_f1, demo_g1, demo_s1]"

definition demo_run :: WorkflowRun where
  "demo_run = \<lparr>run_id = ''r1'', run_owner = ''u1'', run_workflow = ''w1'', run_startedBy = ''user''\<rparr>"

definition demo_env :: env where
  "demo_env =
     \<lparr>env_evaluate = (\<lambda>table expression. Inl (EvaluationError ''Undefined symbol'')),
      env_findRootActions = (\<lambda>w. if w = ''w1'' then filter (\<lambda>a. wa_id a = ''c1'') demo_actions else []),
      env_findAction = (\<lambda>i. find (\<lambda>a. wa_id a = i) demo_actions),
      env_findActionsByIds = (\<lambda>ids. filter (\<lambda>a. wa_id a \<in> set ids) demo_actions),
      env_findIntegrationAction =
        (\<lambda>i. Some \<lparr>ia_key = i, ia_name = i, ia_integration = ''int1''\<rparr>),
      env_findIntegrationActionByKey = (\<lambda>k. None),
      env_findIntegrationTrigger =
        (\<lambda>i. Some \<lparr>it_id = i, it_name = ''poll'', it_idKey = Some ''items[].id'',
                    it_integration = ''int1'', it_triggerPopulate = None\<rparr>),
      env_findIntegration =
        (\<lambda>i. Some \<lparr>in_key = ''demo'', in_name = ''Demo'', in_parentKey = None\<rparr>),
      env_findWorkflow = (\<lambda>w. None),
      env_findRun = (\<lambda>r. if r = ''r1'' then Some demo_run else None),
      env_findAccountCredential = (\<lambda>c. None),
      env_findIntegrationAccount = (\<lambda>i. None),
      env_credentialsKey = Some ''key'',
      env_decrypt = (\<lambda>blob key. Inr []),
      env_run =
        (\<lambda>key opts.
           case opt_operation opts of
             TriggerOperation t \<Rightarrow> Inr (demo_response\<lparr>rr_outputs := []\<rparr>)
           | ActionOperation a \<Rightarrow>
               if ia_key a = ''ia-f1'' then Inl (OperationError ''boom'' None)
               else if ia_key a = ''ia-s1'' then Inr (demo_response\<lparr>rr_sleepUntil := Some ''2030-01-01T00:00:00.000Z''\<rparr>)
               else Inr demo_response),
      env_extractTriggerItems =
        (\<lambda>idKey outputs.
           [\<lparr>ti_id = NumId 30, ti_item = [(''id'', VNum 30)]\<rparr>,
            \<lparr>ti_id = NumId 20, ti_item = [(''id'', VNum 20)]\<rparr>,
            \<lparr>ti_id = NumId 10, ti_item = [(''id'', VNum 10)]\<rparr>])\<rparr>"

definition demo_state :: state where
  "demo_state = \<lparr>events = [], sleeps = [], cursors = (\<lambda>t. None), runCount = 0\<rparr>"

definition demo_trigger :: WorkflowTrigger where
  "demo_trigger = \<lparr>wt_id = ''t1'', wt_owner = ''u1'', wt_workflow = ''w1'', wt_integrationTrigger = ''it1'',
     wt_credentials = None, wt_inputs = [], wt_lastId = Some ''20''\<rparr>"


definition demo_items :: "TriggerItem list" where
  "demo_items =
     [\<lparr>ti_id = NumId 30, ti_item = [(''id'', VNum 30)]\<rparr>,
      \<lparr>ti_id = NumId 20, ti_item = [(''id'', VNum 20)]\<rparr>,
      \<lparr>ti_id = NumId 10, ti_item = [(''id'', VNum 10)]\<rparr>]"


definition demo_continuation :: WorkflowSleep where
  "demo_continuation =
     \<lparr>ws_workflowRun = ''r1'', ws_workflowAction = ''s1'',
      ws_nextActionInputs = Some [(''s1'', VObj [(''n'', VNum 1)])],
      ws_sleepUntil = ''2030-01-01T00:00:00.000Z''\<rparr>"

section \<open>Properties\<close>

subsection \<open>Resolved inputs keep their keys\<close>

lemma obj_set_keys: "fst ` set (obj_set acc k v) = insert k (fst ` set acc)"
  by (induction acc) auto

lemma obj_set_fresh: "k \<notin> set (map fst acc) \<Longrightarrow> obj_set acc k v = acc @ [(k, v)]"
  by (induction acc) auto

lemma obj_assign_keys:
  "fst ` set (obj_assign acc k v) =
     (if k = ''__proto__'' then fst ` set acc else insert k (fst ` set acc))"
  by (simp add: obj_assign_def obj_set_keys)

lemma obj_get_append_fresh:
  "k \<notin> set (map fst acc) \<Longrightarrow> obj_get (acc @ ys) k = obj_get ys k"
  by (induction acc) auto

lemma obj_get_append_old:
  "k \<in> set (map fst acc) \<Longrightarrow> obj_get (acc @ ys) k = obj_get acc k"
  by (induction acc) auto

lemma parseStepInputs_loop_keys:
  "parseStepInputs_loop ev kvs outputs acc = Inr r \<Longrightarrow>
   set (map fst r) = set (map fst acc) \<union> (set (map fst kvs) - {''__proto__''})"
proof (induction kvs arbitrary: acc)
  case Nil
  then show ?case by simp
next
  case (Cons kv kvs)
  from Cons.prems obtain y where y: "parseInput ev (snd kv) outputs = Inr y"
    and rest: "parseStepInputs_loop ev kvs outputs (obj_assign acc (fst kv) y) = Inr r"
    by (auto split: sum.splits)
  from Cons.IH [OF rest] show ?case by (auto simp: obj_assign_keys split: if_splits)
qed

lemma parseStepInputs_loop_distinct:
  "distinct (map fst acc @ map fst kvs) \<Longrightarrow>
   parseStepInputs_loop ev kvs outputs acc = Inr r \<Longrightarrow>
   map fst r = map fst acc @ filter (\<lambda>k. k \<noteq> ''__proto__'') (map fst kvs)
   \<and> (\<forall>k v. (k, v) \<in> set kvs \<and> k \<noteq> ''__proto__'' \<longrightarrow> parseInput ev v outputs = Inr (obj_get r k))
   \<and> (\<forall>k. k \<in> set (map fst acc) \<longrightarrow> obj_get r k = obj_get acc k)"
proof (induction kvs arbitrary: acc)
  case Nil
  then show ?case by simp
next
  case (Cons kv kvs)
  obtain k0 v0 where kv: "kv = (k0, v0)" by (cases kv)
  from Cons.prems(2) kv obtain y where y: "parseInput ev v0 outputs = Inr y"
    and rest: "parseStepInputs_loop ev kvs outputs (obj_assign acc k0 y) = Inr r"
    by (auto split: sum.splits)
  from Cons.prems(1) kv have fresh: "k0 \<notin> set (map fst acc)" and k0: "k0 \<notin> set (map fst kvs)"
    by auto
  show ?case
  proof (cases "k0 = ''__proto__''")
    case True
    then have acc': "obj_assign acc k0 y = acc" by (simp add: obj_assign_def)
    have d: "distinct (map fst acc @ map fst kvs)" using Cons.prems(1) by auto
    note ih = Cons.IH [OF d rest [unfolded acc']]
    from ih True have keys:
      "map fst r = map fst acc @ filter (\<lambda>k. k \<noteq> ''__proto__'') (map fst (kv # kvs))"
      by (simp add: kv)
    have vals: "\<forall>k v. (k, v) \<in> set (kv # kvs) \<and> k \<noteq> ''__proto__''
                  \<longrightarrow> parseInput ev v outputs = Inr (obj_get r k)"
      using ih True kv by auto
    from ih have keep: "\<forall>k. k \<in> set (map fst acc) \<longrightarrow> obj_get r k = obj_get acc k" by blast
    from keys vals keep show ?thesis by blast
  next
    case False
    have acc': "obj_assign acc k0 y = acc @ [(k0, y)]"
      using fresh False by (simp add: obj_assign_def obj_set_fresh)
    have d: "distinct (map fst (acc @ [(k0, y)]) @ map fst kvs)"
      using Cons.prems(1) kv by auto
    note ih = Cons.IH [OF d rest [unfolded acc']]
    from ih False have keys:
      "map fst r = map fst acc @ filter (\<lambda>k. k \<noteq> ''__proto__'') (map fst (kv # kvs))"
      by (simp add: kv)
    from ih have old: "\<forall>k. k \<in> set (map fst (acc @ [(k0, y)])) \<longrightarrow> obj_get r k = obj_get (acc @ [(k0, y)]) k"
      by blast
    have r_k0: "obj_get r k0 = y"
      using old [rule_format, of k0] fresh by (simp add: obj_get_append_fresh)
    have vals: "\<forall>k v. (k, v) \<in> set (kv # kvs) \<and> k \<noteq> ''__proto__''
                  \<longrightarrow> parseInput ev v outputs = Inr (obj_get r k)"
      using ih y r_k0 kv by auto
    have keep: "\<forall>k. k \<in> set (map fst acc) \<longrightarrow> obj_get r k = obj_get acc k"
    proof (intro allI impI)
      fix k assume k: "k \<in> set (map fst acc)"
      then have "obj_get r k = obj_get (acc @ [(k0, y)]) k" using old by simp
      also have "\<dots> = obj_get acc k" using k by (rule obj_get_append_old)
      finally show "obj_get r k = obj_get acc k" .
    qed
    from keys vals keep show ?thesis by blast
  qed
qed









subsection \<open>Empty objects\<close>

lemma parseInput_entries_loop:
  "parseInput_entries ev kvs outputs prev = parseStepInputs_loop ev kvs outputs prev"
  by (induction kvs arbitrary: prev) (auto split: sum.splits)

lemma map_sum_id_Inr: "map_sum id f x = Inr r \<longleftrightarrow> (\<exists>y. x = Inr y \<and> r = f y)"
  by (cases x) auto

text \<open>
  C4. An input object without keys resolves to \<^verbatim>\<open>undefined\<close>. So the key of an empty
  object, when it is not \<^verbatim>\<open>__proto__\<close>, stays in the resolved output of its parent, with
  the value \<^verbatim>\<open>undefined\<close>: it is not omitted, and it does not hold an empty object.
\<close>

theorem empty_object_resolves_to_undefined:
  "parseInput ev (VObj []) outputs = Inr VUndefined
   \<and> (\<forall>parent k parsed.
         distinct (obj_keys parent) \<and> (k, VObj []) \<in> set parent \<and> k \<noteq> ''__proto__''
         \<and> parseInput ev (VObj parent) outputs = Inr parsed \<longrightarrow>
         (\<exists>ob. parsed = VObj ob \<and> has_key ob k \<and> obj_get ob k = VUndefined))"
proof (intro conjI allI impI)
  show "parseInput ev (VObj []) outputs = Inr VUndefined"
    by (simp add: isEmptyObj_def)
next
  fix parent k parsed
  assume h: "distinct (obj_keys parent) \<and> (k, VObj []) \<in> set parent \<and> k \<noteq> ''__proto__''
             \<and> parseInput ev (VObj parent) outputs = Inr parsed"
  then have ne: "parent \<noteq> []" by auto
  with h obtain ob where ob: "parseStepInputs_loop ev parent outputs [] = Inr ob"
    and r: "parsed = VObj ob"
    by (auto simp: isEmptyObj_def parseInput_entries_loop map_sum_id_Inr)
  have facts: "\<forall>k v. (k, v) \<in> set parent \<and> k \<noteq> ''__proto__''
                 \<longrightarrow> parseInput ev v outputs = Inr (obj_get ob k)"
    using parseStepInputs_loop_distinct [of "[]" parent ev outputs ob] ob h
    by (simp add: obj_keys_def)
  with h have "parseInput ev (VObj []) outputs = Inr (obj_get ob k)" by blast
  then have val: "obj_get ob k = VUndefined" by (simp add: isEmptyObj_def)
  from h have "k \<in> set (map fst parent) - {''__proto__''}" by force
  then have "has_key ob k"
    using parseStepInputs_loop_keys [OF ob] by (simp add: has_key_def)
  with r val show "\<exists>ob. parsed = VObj ob \<and> has_key ob k \<and> obj_get ob k = VUndefined"
    by blast
qed

theorem empty_object_resolves_to_undefined_witness:
  "parseInput echo_evaluate (VObj [(''query'', VObj []), (''limit'', VNum 5)]) []
     = Inr (VObj [(''query'', VUndefined), (''limit'', VNum 5)])
   \<and> (\<exists>ob. VObj [(''query'', VUndefined), (''limit'', VNum 5)] = VObj ob
            \<and> has_key ob ''query'' \<and> obj_get ob ''query'' = VUndefined)"
proof -
  have run: "parseInput echo_evaluate (VObj [(''query'', VObj []), (''limit'', VNum 5)]) []
               = Inr (VObj [(''query'', VUndefined), (''limit'', VNum 5)])"
    by code_simp
  have h: "distinct (obj_keys [(''query'', VObj []), (''limit'', VNum 5)])
           \<and> (''query'', VObj []) \<in> set [(''query'', VObj []), (''limit'', VNum 5)]
           \<and> ''query'' \<noteq> ''__proto__''
           \<and> parseInput echo_evaluate (VObj [(''query'', VObj []), (''limit'', VNum 5)]) []
               = Inr (VObj [(''query'', VUndefined), (''limit'', VNum 5)])"
    using run by (simp add: obj_keys_def)
  from empty_object_resolves_to_undefined
         [of echo_evaluate "[]", THEN conjunct2, rule_format, OF h] run
  show ?thesis by blast
qed

text \<open>
  C4, at a concrete input: the key of an empty object is present in the resolved output of its
  parent (and of \<^verbatim>\<open>parseStepInputs\<close>), with the value \<^verbatim>\<open>undefined\<close>.
\<close>

theorem empty_object_key_counterexample:
  "parseInput echo_evaluate (VObj [(''query'', VObj [])]) [] = Inr (VObj [(''query'', VUndefined)])
   \<and> has_key [(''query'', VUndefined)] ''query''
   \<and> parseStepInputs echo_evaluate [(''query'', VObj [])] [] = Inr [(''query'', VUndefined)]"
  by code_simp

subsection \<open>Placeholders and expressions\<close>

lemma whole_placeholder_keeps_value:
  assumes "s \<noteq> []" and "matchAll_variable s = [m]" and "js_trim s = fst m"
  shows "parseInput ev (VStr s) outputs = calculateExpression ev (js_trim (snd m)) outputs"
  using assms by (simp add: parseString_def)

lemma single_path_is_a_lookup:
  assumes "matchAll_operators 0 input = [(i, tok)]" and "tok = js_trim input"
  shows "calculateExpression ev input references = Inr (lodash_get references input)"
  using assms by (simp add: calculateExpression_def)

lemma other_strings_give_strings:
  assumes "\<not> (length (matchAll_variable s) = 1 \<and> js_trim s = fst (hd (matchAll_variable s)))"
    and "parseInput ev (VStr s) outputs = Inr r"
  shows "\<exists>t. r = VStr t"
  using assms by (cases "s = []") (auto simp: parseString_def Let_def map_sum_id_Inr)

lemma resolver_examples:
  "parseInput echo_evaluate (VStr ''{{ foo.bar }}'') [(''foo'', VObj [(''bar'', VNum 5)])]
     = Inr (VNum 5)"
  "parseInput echo_evaluate (VStr ''Value: {{ foo.bar }}'') [(''foo'', VObj [(''bar'', VNum 5)])]
     = Inr (VStr ''Value: 5'')"
  "parseInput echo_evaluate (VStr ''{{ foo.bar - foo.baz }}'')
     [(''foo'', VObj [(''bar'', VNum 5), (''baz'', VNum 3)])]
     = Inl (EvaluationError ''5 - 3'')"
  by code_simp+

lemma difference_example_expression:
  "foldl (substitute_operator [(''foo'', VObj [(''bar'', VNum 5), (''baz'', VNum 3)])]
            ''foo.bar - foo.baz'')
     ''foo.bar - foo.baz'' (matchAll_operators 0 ''foo.bar - foo.baz'') = ''5 - 3''"
  "length (matchAll_operators 0 ''foo.bar - foo.baz'') = 2"
  by code_simp+

lemma difference_example:
  "calculateExpression ev ''foo.bar - foo.baz''
     [(''foo'', VObj [(''bar'', VNum 5), (''baz'', VNum 3)])] = ev builtins ''5 - 3''"
  by (simp add: calculateExpression_def difference_example_expression
           del: matchAll_operators.simps)

text \<open>
  C3. A string that is one placeholder alone resolves to the value of the placeholder, of
  whatever type (\<open>whole_placeholder_keeps_value\<close>, \<open>resolver_examples\<close>). In any other
  string the placeholders are not always replaced in place by their values. The value of a
  placeholder is passed to \<^verbatim>\<open>String.prototype.replace\<close> as the replacement text, where
  \<^verbatim>\<open>$$\<close> and \<^verbatim>\<open>$&\<close> are patterns, and each replacement acts on the first occurrence of
  the placeholder's text in the current string: a value \<^verbatim>\<open>$$\<close> arrives as one dollar
  sign, a value containing \<^verbatim>\<open>$&\<close> brings the placeholder back, and a value that
  contains the text of a later placeholder is replaced in its place.
\<close>

theorem placeholder_value_with_dollar_patterns:
  "parseInput echo_evaluate (VStr ''Value: {{ foo.bar }}'') [(''foo'', VObj [(''bar'', VStr ''$$'')])]
     = Inr (VStr ''Value: $'')
   \<and> parseInput echo_evaluate (VStr ''Value: {{ foo.bar }}'') [(''foo'', VObj [(''bar'', VStr ''a$&b'')])]
     = Inr (VStr ''Value: a{{ foo.bar }}b'')
   \<and> parseInput echo_evaluate (VStr ''{{ a.x }} and {{ a.y }}'')
       [(''a'', VObj [(''x'', VStr ''{{ a.y }}''), (''y'', VStr ''Y'')])]
     = Inr (VStr ''Y and {{ a.y }}'')"
  by code_simp

text \<open>
  C7. The substitution of paths does not always skip quoted text. A path match outside quotes replaces
  the first occurrence of its text in the expression, which may be the occurrence inside a
  quoted literal: in \<^verbatim>\<open>concat("foo.bar=", foo.bar)\<close> the quoted text is replaced by the
  value and the path after it is left as it is. (For \<^verbatim>\<open>foo.bar - foo.baz\<close> with the values
  5 and 3 the evaluator is handed \<^verbatim>\<open>5 - 3\<close>, \<open>difference_example\<close>.)
\<close>

theorem quoted_path_is_substituted:
  \<open>calculateExpression echo_evaluate ''concat("foo.bar=", foo.bar)''
     [(''foo'', VObj [(''bar'', VNum 5)])]
     = Inl (EvaluationError ''concat("5=", foo.bar)'')\<close>
  by code_simp

subsection \<open>The template matcher of extract\<close>

lemma escape_template_Nil [simp]: "escape_template [] = []"
  by (simp add: escape_template_def)

lemma escape_template_Cons:
  "escape_template (c # cs) = (if regex_special c then [CHR 0x5C, c] else [c]) @ escape_template cs"
  by (simp add: escape_template_def)

lemma star_special [simp]: "regex_special (CHR ''*'')" "regex_special (CHR 0x5C)"
  "regex_special (CHR ''('')"
  by (simp_all add: regex_special_def)

lemma escape_template_no_star: "\<not> starts_with (escape_template cs) ''*''"
  by (cases cs) (auto simp: escape_template_Cons starts_with_def)

lemma dropWhile_star_escape [simp]:
  "dropWhile (\<lambda>x. x = CHR ''*'') (escape_template cs) = escape_template cs"
  using escape_template_no_star [of cs]
  by (cases "escape_template cs") (auto simp: starts_with_def)

lemma escape_two_stars:
  "starts_with (escape_template cs) [CHR 0x5C, CHR ''*'', CHR 0x5C, CHR ''*''] \<longleftrightarrow> starts_with cs ''**''"
proof (cases cs)
  case Nil
  then show ?thesis by (simp add: starts_with_def escape_template_def)
next
  case (Cons a as)
  show ?thesis
  proof (cases as)
    case Nil
    with Cons show ?thesis
      by (auto simp: starts_with_def escape_template_Cons escape_template_def)
  next
    case (Cons b bs)
    with \<open>cs = a # as\<close> show ?thesis
      by (auto simp: starts_with_def escape_template_Cons)
  qed
qed


lemma wildcard_groups_plain:
  "c \<noteq> CHR 0x5C \<Longrightarrow> wildcard_groups (c # rest) = c # wildcard_groups rest"
  by (simp add: starts_with_def escaped_stars_def)

lemma wildcard_groups_escaped:
  "\<not> starts_with (CHR 0x5C # d # rest) escaped_stars \<Longrightarrow> \<not> starts_with (d # rest) escaped_stars
   \<Longrightarrow> wildcard_groups (CHR 0x5C # d # rest) = CHR 0x5C # d # wildcard_groups rest"
  by simp

lemma wildcard_groups_stars:
  "wildcard_groups (escaped_stars @ escape_template cs) = ''(.+)'' @ wildcard_groups (escape_template cs)"
  by (simp add: escaped_stars_def starts_with_def)

lemma regex_atoms_plain:
  "c \<noteq> CHR 0x5C \<Longrightarrow> c \<noteq> CHR ''('' \<Longrightarrow>
   regex_atoms (c # rest) = map_option ((#) (Lit c)) (regex_atoms rest)"
  by (simp add: starts_with_def)

lemma regex_atoms_escaped:
  "regex_atoms (CHR 0x5C # d # rest) = map_option ((#) (Lit d)) (regex_atoms rest)"
  by simp

lemma regex_atoms_group:
  "regex_atoms (CHR ''('' # CHR ''.'' # CHR ''+'' # CHR '')'' # rest)
     = map_option ((#) Wild) (regex_atoms rest)"
  by (simp add: starts_with_def)

lemma compiled_template:
  "regex_atoms (wildcard_groups (escape_template t)) = Some (template_atoms t)"
proof (induction t rule: template_atoms.induct)
  case 1
  show ?case by simp
next
  case (2 c cs)
  show ?case
  proof (cases "starts_with (c # cs) ''***''")
    case True
    then obtain cs' where cs: "c = CHR ''*''" "cs = CHR ''*'' # CHR ''*'' # cs'"
      by (cases cs; cases "tl cs") (auto simp: starts_with_def)
    have esc: "escape_template (CHR ''*'' # CHR ''*'' # CHR ''*'' # cs')
                 = escaped_stars @ escape_template cs'"
      by (simp add: escape_template_Cons escaped_stars_def)
    have "regex_atoms (wildcard_groups (escape_template (drop 2 cs))) = Some (template_atoms (drop 2 cs))"
      using 2(1) True by simp
    then show ?thesis
      using True cs
      by (simp add: esc wildcard_groups_stars regex_atoms_group del: wildcard_groups.simps regex_atoms.simps)
  next
    case False
    have ih: "regex_atoms (wildcard_groups (escape_template cs)) = Some (template_atoms cs)"
      using 2(2) False by simp
    show ?thesis
    proof (cases "regex_special c")
      case plain: False
      then have c: "c \<noteq> CHR 0x5C" "c \<noteq> CHR ''(''"
        by (auto simp: regex_special_def)
      show ?thesis
        using False plain ih c
        by (simp add: escape_template_Cons wildcard_groups_plain regex_atoms_plain
                 del: wildcard_groups.simps regex_atoms.simps)
    next
      case special: True
      have no1: "\<not> starts_with (CHR 0x5C # c # escape_template cs) escaped_stars"
      proof
        assume a: "starts_with (CHR 0x5C # c # escape_template cs) escaped_stars"
        then have "c = CHR ''*''" and "starts_with (escape_template cs) [CHR 0x5C, CHR ''*'', CHR 0x5C, CHR ''*'']"
          by (auto simp: starts_with_def escaped_stars_def)
        then have "starts_with (c # cs) ''***''"
          using escape_two_stars [of cs] by (auto simp: starts_with_def)
        with False show False by simp
      qed
      have no2: "\<not> starts_with (c # escape_template cs) escaped_stars"
      proof
        assume a: "starts_with (c # escape_template cs) escaped_stars"
        then have "starts_with (escape_template cs) ''*''"
          by (cases "escape_template cs") (auto simp: starts_with_def escaped_stars_def)
        with escape_template_no_star show False by blast
      qed
      show ?thesis
        using False special ih wildcard_groups_escaped [OF no1 no2]
        by (simp add: escape_template_Cons regex_atoms_escaped
                 del: wildcard_groups.simps regex_atoms.simps)
    qed
  qed
qed

lemma match_here_sound:
  "match_here as s = Some (caps, n) \<Longrightarrow> n \<le> length s \<and> denotes as (take n s)"
  "wild_try as s k = Some (caps, n) \<Longrightarrow> k \<le> length (takeWhile dot_char s) \<Longrightarrow>
     n \<le> length s \<and> denotes (Wild # as) (take n s)"
proof (induction as s and as s k arbitrary: caps n and caps n rule: match_here_wild_try.induct)
  case (1 s)
  then show ?case by simp
next
  case (2 c as s)
  show ?case
  proof (cases s)
    case Nil
    with 2 show ?thesis by simp
  next
    case (Cons d ds)
    with 2(2) obtain caps' n' where eq: "c = d" and m: "match_here as ds = Some (caps', n')"
      and n: "n = Suc n'"
      by (auto split: if_splits)
    from 2(1) [OF Cons eq m] have "n' \<le> length ds \<and> denotes as (take n' ds)" .
    with Cons eq n show ?thesis by simp
  qed
next
  case (3 as s)
  then show ?case by simp
next
  case (4 as s)
  then show ?case by simp
next
  case (5 as s k)
  have kk: "Suc k \<le> length (takeWhile dot_char s)" using 5 by simp
  then have klen: "Suc k \<le> length s"
    using length_takeWhile_le [of dot_char s] by linarith
  show ?case
  proof (cases "match_here as (drop (Suc k) s)")
    case None
    with 5(3) have "wild_try as s k = Some (caps, n)" by simp
    from 5(2) [OF None this] kk show ?thesis by simp
  next
    case (Some a)
    obtain caps' n' where a: "a = (caps', n')" by (cases a)
    with 5(3) Some have n: "n = Suc k + n'" by auto
    from 5(1) [OF Some [unfolded a]]
    have ih: "n' \<le> length (drop (Suc k) s) \<and> denotes as (take n' (drop (Suc k) s))" .
    have dots: "list_all dot_char (take (Suc k) s)"
    proof -
      have "take (Suc k) s = take (Suc k) (takeWhile dot_char s)"
        using kk by (metis append_eq_conv_conj takeWhile_dropWhile_id take_all take_append
                       diff_is_0_eq take_0 append_Nil2)
      moreover have "list_all dot_char (takeWhile dot_char s)"
        by (simp add: list_all_iff) (meson set_takeWhileD)
      ultimately show ?thesis
        by (metis list_all_iff in_set_takeD)
    qed
    have split: "take n s = take (Suc k) s @ take n' (drop (Suc k) s)"
      unfolding n by (rule take_add)
    have ne: "take (Suc k) s \<noteq> []" using klen by auto
    have "\<exists>w r. take n s = w @ r \<and> w \<noteq> [] \<and> list_all dot_char w \<and> denotes as r"
      using split ne dots ih by blast
    then have "denotes (Wild # as) (take n s)"
      by simp
    moreover have "n \<le> length s" using ih klen n by auto
    ultimately show ?thesis by simp
  qed
qed

lemma regex_exec_sound:
  "regex_exec as i s = Some (pos, caps, n) \<Longrightarrow>
   \<exists>pre mid post. s = pre @ mid @ post \<and> denotes as mid"
proof (induction s arbitrary: i)
  case Nil
  then obtain caps' n' where "match_here as [] = Some (caps', n')" by auto
  from match_here_sound(1) [OF this] show ?case by auto
next
  case (Cons c cs)
  show ?case
  proof (cases "match_here as (c # cs)")
    case None
    with Cons.prems have "regex_exec as (Suc i) cs = Some (pos, caps, n)" by simp
    from Cons.IH [OF this] obtain pre mid post where "cs = pre @ mid @ post" "denotes as mid"
      by blast
    then have "c # cs = (c # pre) @ mid @ post \<and> denotes as mid" by simp
    then show ?thesis by blast
  next
    case (Some a)
    obtain caps' n' where a: "a = (caps', n')" by (cases a)
    from match_here_sound(1) [OF Some [unfolded a]]
    have "denotes as (take n' (c # cs))" by simp
    moreover have "c # cs = [] @ take n' (c # cs) @ drop n' (c # cs)" by simp
    ultimately show ?thesis by blast
  qed
qed


lemma wild_try_complete:
  "0 < j \<Longrightarrow> j \<le> k \<Longrightarrow> match_here as (drop j s) \<noteq> None \<Longrightarrow> wild_try as s k \<noteq> None"
proof (induction k)
  case 0
  then show ?case by simp
next
  case (Suc k)
  show ?case
  proof (cases "match_here as (drop (Suc k) s)")
    case None
    with Suc.prems have "j \<noteq> Suc k" by auto
    with Suc.prems have "j \<le> k" by simp
    from Suc.IH [OF Suc.prems(1) this Suc.prems(3)] None show ?thesis by simp
  next
    case (Some a)
    then show ?thesis by (cases a) simp
  qed
qed

lemma match_here_complete:
  "denotes as m \<Longrightarrow> match_here as (m @ post) \<noteq> None"
proof (induction as arbitrary: m)
  case Nil
  show ?case by simp
next
  case (Cons a as)
  show ?case
  proof (cases a)
    case (Lit c)
    with Cons.prems obtain r where m: "m = c # r" and r: "denotes as r" by auto
    from Cons.IH [OF r] obtain x where "match_here as (r @ post) = Some x" by auto
    then show ?thesis using Lit m by (cases x) simp
  next
    case Wild
    with Cons.prems obtain w r where m: "m = w @ r" and w: "w \<noteq> []" "list_all dot_char w"
      and r: "denotes as r" by auto
    let ?s = "m @ post"
    have "takeWhile dot_char ?s = w @ takeWhile dot_char (r @ post)"
      using w(2) by (simp add: m takeWhile_append2 list_all_iff)
    then have le: "length w \<le> length (takeWhile dot_char ?s)" by simp
    have "drop (length w) ?s = r @ post" by (simp add: m)
    with Cons.IH [OF r] have "match_here as (drop (length w) ?s) \<noteq> None" by simp
    from wild_try_complete [OF _ le this] w(1)
    have "wild_try as ?s (length (takeWhile dot_char ?s)) \<noteq> None" by simp
    then show ?thesis using Wild by simp
  qed
qed

lemma regex_exec_complete:
  "denotes as mid \<Longrightarrow> regex_exec as i (pre @ mid @ post) \<noteq> None"
proof (induction pre arbitrary: i)
  case Nil
  from match_here_complete [OF Nil, of post] obtain x where x: "match_here as (mid @ post) = Some x"
    by auto
  show ?case
    using x by (cases "mid @ post"; cases x) auto
next
  case (Cons c pre)
  show ?case
  proof (cases "match_here as (c # pre @ mid @ post)")
    case None
    then show ?thesis using Cons.IH [OF Cons.prems] by simp
  next
    case (Some a)
    then show ?thesis by (cases a) simp
  qed
qed

lemma template_matches_exec:
  "template_matches template str \<longleftrightarrow> regex_exec (template_atoms template) 0 str \<noteq> None"
proof
  assume "template_matches template str"
  then obtain pre mid post where str: "str = pre @ mid @ post"
    and den: "denotes (template_atoms template) mid"
    unfolding template_matches_def by blast
  from regex_exec_complete [OF den, of 0 pre post]
  show "regex_exec (template_atoms template) 0 str \<noteq> None"
    unfolding str .
next
  assume "regex_exec (template_atoms template) 0 str \<noteq> None"
  then obtain pos caps n where "regex_exec (template_atoms template) 0 str = Some (pos, caps, n)"
    by auto
  from regex_exec_sound [OF this] show "template_matches template str"
    by (simp add: template_matches_def)
qed


text \<open>
  C9. When the template, with its wildcards read as capturing groups, matches no part of the
  string, \<^verbatim>\<open>extract\<close> returns the empty string: not the string itself, and no error.
  (The regular expression built from a template is always well formed and has exactly the
  atoms of the template, \<open>compiled_template\<close>; the backtracking matcher finds a match
  exactly when the template matches, \<open>template_matches_exec\<close>.)
\<close>

theorem extract_without_match_is_empty:
  "\<not> template_matches template str \<Longrightarrow> extract_fn str template replace = Inr []"
proof -
  assume no: "\<not> template_matches template str"
  have "regex_exec (template_atoms template) 0 str = None"
  proof (rule ccontr)
    assume "regex_exec (template_atoms template) 0 str \<noteq> None"
    then obtain pos caps n where "regex_exec (template_atoms template) 0 str = Some (pos, caps, n)"
      by auto
    from regex_exec_sound [OF this] no show False
      by (simp add: template_matches_def)
  qed
  then show ?thesis
    by (simp add: extract_fn_def compiled_template)
qed

lemma extract_examples:
  "extract_fn ''hello world'' ''hello ***'' ''$1!'' = Inr ''world!''"
  "extract_fn ''order #42 shipped'' ''#*** '' ''<$1>'' = Inr ''order <42>shipped''"
  "extract_fn ''hello world'' ''bye ***'' ''$1!'' = Inr []"
  by code_simp+

lemma demo_no_match: "regex_exec (template_atoms ''bye ***'') 0 ''hello world'' = None"
  by code_simp

theorem extract_without_match_is_empty_witness:
  "\<not> template_matches ''bye ***'' ''hello world''
   \<and> extract_fn ''hello world'' ''bye ***'' ''$1!'' = Inr []"
proof -
  have no: "\<not> template_matches ''bye ***'' ''hello world''"
    unfolding template_matches_exec demo_no_match by simp
  from no extract_without_match_is_empty [OF no, of "''$1!''"] show ?thesis by simp
qed

subsection \<open>The runner leaves the cursors alone\<close>

lemma keeps_cursorsD: "keeps_cursors f \<Longrightarrow> f s = Some (x, s') \<Longrightarrow> cursors s' = cursors s"
  by (auto simp: keeps_cursors_def)

lemma add_event_cursors [simp]: "cursors (add_event e s) = cursors s"
  by (simp add: add_event_def)

lemma sleepWorkflowRun_cursors [simp]: "cursors (sleepWorkflowRun r a b t s) = cursors s"
  by (simp add: sleepWorkflowRun_def)

lemma createOne_cursors: "createOne ow w sb st = (run, st1) \<Longrightarrow> cursors st1 = cursors st"
  by (auto simp: createOne_def Let_def)

lemma promise_all_cursors:
  "(\<And>p. p \<in> set ps \<Longrightarrow> keeps_cursors p) \<Longrightarrow> keeps_cursors (promise_all ps)"
proof (induction ps)
  case Nil
  then show ?case by (simp add: keeps_cursors_def)
next
  case (Cons p ps)
  have kp: "keeps_cursors p" and kps: "keeps_cursors (promise_all ps)"
    using Cons by auto
  show ?case
    unfolding keeps_cursors_def
  proof (intro allI impI)
    fix s x s'
    assume run: "promise_all (p # ps) s = Some (x, s')"
    then obtain r1 s1 r2 where p1: "p s = Some (r1, s1)" and p2: "promise_all ps s1 = Some (r2, s')"
      by (auto split: option.splits prod.splits)
    from keeps_cursorsD [OF kp p1] keeps_cursorsD [OF kps p2]
    show "cursors s' = cursors s" by simp
  qed
qed

lemma loop_cursors:
  "rec_keeps_cursors rec \<Longrightarrow> keeps_cursors (runWorkflowActions_loop rec roots bags run)"
proof (induction bags)
  case Nil
  then show ?case by (simp add: keeps_cursors_def)
next
  case (Cons b bags)
  have kall: "keeps_cursors (promise_all (map (\<lambda>action. rec action b run) roots))"
    using Cons.prems by (intro promise_all_cursors) (auto simp: rec_keeps_cursors_def)
  have kloop: "keeps_cursors (runWorkflowActions_loop rec roots bags run)"
    using Cons by simp
  show ?case
    unfolding keeps_cursors_def
  proof (intro allI impI)
    fix s x s'
    assume run: "runWorkflowActions_loop rec roots (b # bags) run s = Some (x, s')"
    show "cursors s' = cursors s"
    proof (cases "promise_all (map (\<lambda>action. rec action b run) roots) s")
      case None
      with run show ?thesis by simp
    next
      case (Some a)
      obtain r1 s1 where a: "a = (r1, s1)" by (cases a)
      have c1: "cursors s1 = cursors s" using keeps_cursorsD [OF kall] Some a by simp
      show ?thesis
      proof (cases r1)
        case (Inl e)
        with run Some a c1 show ?thesis by simp
      next
        case (Inr u)
        with run Some a have "runWorkflowActions_loop rec roots bags run s1 = Some (x, s')" by simp
        from keeps_cursorsD [OF kloop this] c1 show ?thesis by simp
      qed
    qed
  qed
qed

lemma runWorkflowActions_cursors:
  "rec_keeps_cursors rec \<Longrightarrow> keeps_cursors (runWorkflowActions rec roots bags run)"
  using loop_cursors [of rec roots bags run]
  by (auto simp: keeps_cursors_def runWorkflowActions_def split: option.splits prod.splits sum.splits)

lemma runWorkflowOnFailure_cursors:
  "rec_keeps_cursors rec \<Longrightarrow> keeps_cursors (runWorkflowOnFailure rec env w)"
  unfolding keeps_cursors_def runWorkflowOnFailure_def startWorkflowRun_def
  by (auto split: option.splits prod.splits dest!: createOne_cursors
           dest: keeps_cursorsD [OF runWorkflowActions_cursors])

lemma onActionFailure_cursors:
  "rec_keeps_cursors rec \<Longrightarrow> keeps_cursors (onActionFailure rec env w run a m r)"
  using runWorkflowOnFailure_cursors [of rec env w]
  by (auto simp: keeps_cursors_def onActionFailure_def)

lemma onTriggerFailure_cursors:
  "rec_keeps_cursors rec \<Longrightarrow> keeps_cursors (onTriggerFailure rec env w run m r)"
  using runWorkflowOnFailure_cursors [of rec env w]
  by (auto simp: keeps_cursors_def onTriggerFailure_def)

lemma getCredentials_cursors:
  "keeps_cursors onError \<Longrightarrow> keeps_cursors (getCredentialsAndIntegrationAccount env cid onError)"
  unfolding keeps_cursors_def getCredentialsAndIntegrationAccount_def
  by (auto split: option.splits if_splits sum.splits prod.splits)

lemma runNextActions_cursors:
  "rec_keeps_cursors rec \<Longrightarrow> keeps_cursors (runNextActions rec env nas bag run)"
proof (induction nas)
  case Nil
  then show ?case by (simp add: keeps_cursors_def)
next
  case (Cons na nas)
  then have kloop: "keeps_cursors (runNextActions rec env nas bag run)" by simp
  have krec: "\<And>a. keeps_cursors (rec a bag run)"
    using Cons.prems by (simp add: rec_keeps_cursors_def)
  show ?case
    unfolding keeps_cursors_def
  proof (intro allI impI)
    fix s x s'
    assume run: "runNextActions rec env (na # nas) bag run s = Some (x, s')"
    show "cursors s' = cursors s"
    proof (cases "env_findAction env (na_action na)")
      case None
      with run show ?thesis by simp
    next
      case (Some nextAction)
      show ?thesis
      proof (cases "rec nextAction bag run s")
        case None
        with run Some show ?thesis by simp
      next
        case inner: (Some a)
        obtain r1 s1 where a: "a = (r1, s1)" by (cases a)
        have c1: "cursors s1 = cursors s" using keeps_cursorsD [OF krec] inner a by simp
        show ?thesis
        proof (cases r1)
          case (Inl e)
          with run Some inner a c1 show ?thesis by simp
        next
          case (Inr u)
          with run Some inner a
          have "runNextActions rec env nas bag run s1 = Some (x, s')" by simp
          from keeps_cursorsD [OF kloop this] c1 show ?thesis by simp
        qed
      qed
    qed
  qed
qed

lemma runWorkflowActionsTree_cursors:
  assumes "rec_keeps_cursors rec"
  shows "keeps_cursors (runWorkflowActionsTree rec env a bag run)"
  unfolding keeps_cursors_def
proof (intro allI impI)
  fix s x s'
  assume run: "runWorkflowActionsTree rec env a bag run s = Some (x, s')"
  note kf = keeps_cursorsD [OF onActionFailure_cursors [OF assms]]
  note kc = keeps_cursorsD [OF getCredentials_cursors [OF onActionFailure_cursors [OF assms]]]
  note kn = keeps_cursorsD [OF runNextActions_cursors [OF assms]]
  from run show "cursors s' = cursors s"
    unfolding runWorkflowActionsTree_def Let_def
    by (auto split: option.splits sum.splits prod.splits dest!: kf kc kn)
qed

lemma treeRunner_cursors: "rec_keeps_cursors (treeRunner n env)"
proof (induction n)
  case 0
  show ?case by (simp add: rec_keeps_cursors_def keeps_cursors_def)
next
  case (Suc n)
  then show ?case
    using runWorkflowActionsTree_cursors [of "treeRunner n env" env]
    by (simp add: rec_keeps_cursors_def)
qed

subsection \<open>Trigger deduplication and cursor\<close>

lemma array_indexOf_None: "array_indexOf xs x = None \<longleftrightarrow> x \<notin> set xs"
  by (induction xs) auto

lemma array_indexOf_first:
  "k < length xs \<Longrightarrow> xs ! k = x \<Longrightarrow> (\<forall>j<k. xs ! j \<noteq> x) \<Longrightarrow> array_indexOf xs x = Some k"
proof (induction xs arbitrary: k)
  case Nil
  then show ?case by simp
next
  case (Cons y ys)
  show ?case
  proof (cases k)
    case 0
    with Cons.prems show ?thesis by simp
  next
    case (Suc k')
    with Cons.prems have "y \<noteq> x" by auto
    moreover have "array_indexOf ys x = Some k'"
      using Cons.prems Suc by (intro Cons.IH) auto
    ultimately show ?thesis using Suc by simp
  qed
qed

lemma triggerIdsOf_length [simp]: "length (triggerIdsOf items) = length items"
  by (simp add: triggerIdsOf_def)

lemma newTriggerItems_found:
  "l \<noteq> [] \<Longrightarrow> k < length items \<Longrightarrow> triggerIdsOf items ! k = l
   \<Longrightarrow> (\<forall>j<k. triggerIdsOf items ! j \<noteq> l)
   \<Longrightarrow> newTriggerItems (Some l) items = take k items"
  using array_indexOf_first [of k "triggerIdsOf items" l]
  by (simp add: newTriggerItems_def)

lemma newTriggerItems_absent:
  "l \<noteq> [] \<Longrightarrow> l \<notin> set (triggerIdsOf items) \<Longrightarrow> newTriggerItems (Some l) items = items"
  using array_indexOf_None [of "triggerIdsOf items" l]
  by (simp add: newTriggerItems_def)

lemma newTriggerItems_bootstrap:
  "\<not> str_truthy lastId \<Longrightarrow> newTriggerItems lastId items = take 1 items"
  by (cases lastId) (simp_all add: newTriggerItems_def)

lemma newTriggerItems_nonempty: "newTriggerItems lastId items \<noteq> [] \<Longrightarrow> items \<noteq> []"
  by (auto simp: newTriggerItems_def split: option.splits if_splits)

lemma runWorkflowTriggerCheck_dispatch:
  assumes roots: "env_findRootActions env (wt_workflow t) \<noteq> []"
    and it: "env_findIntegrationTrigger env (wt_integrationTrigger t) = Some it"
    and idKey: "it_idKey it = Some idKey" "idKey \<noteq> []"
    and integ: "env_findIntegration env (it_integration it) = Some integ"
    and run: "createOne (wt_owner t) (wt_workflow t) startedBy st = (run, st1)"
    and creds: "getCredentialsAndIntegrationAccount env (wt_credentials t)
                  (onTriggerFailure rec env (wt_workflow t) run ''Credentials not found'' None) st1
                = Some (Inr creds, st1)"
    and inputs: "parseStepInputs (env_evaluate env) (wt_inputs t) [] = Inr inputs"
    and opts: "opts = \<lparr>opt_integration = integ,
                  opt_integrationAccount = cr_integrationAccount creds,
                  opt_operation = TriggerOperation it,
                  opt_inputs = inputs,
                  opt_credentials = cr_credentials creds,
                  opt_accountCredential = cr_accountCredential creds\<rparr>"
    and resp: "env_run env (definitionKey integ) opts = Inr resp"
    and items: "items = env_extractTriggerItems env idKey (rr_outputs resp)"
    and new: "newTriggerItems (wt_lastId t) items \<noteq> []"
    and populated: "(if populateConfigured it
                     then populateItems env (definitionKey integ) opts (newTriggerItems (wt_lastId t) items)
                     else Inr (newTriggerItems (wt_lastId t) items)) = Inr populated"
  shows "runWorkflowTriggerCheck rec env t startedBy st =
           runWorkflowActions rec (env_findRootActions env (wt_workflow t))
             (map (\<lambda>data. [(wt_id t, VObj (ti_item data))]) (rev populated)) run
             ((add_event (MarkTriggerAsCompleted (run_id run) True (triggerIdsOf items)) st1)
                \<lparr>cursors := (cursors st1)(wt_id t := Some (hd (triggerIdsOf items)))\<rparr>)"
proof -
  have ne: "triggerIdsOf items \<noteq> []"
    using newTriggerItems_nonempty [OF new] by (simp add: triggerIdsOf_def)
  then have hd: "(case triggerIdsOf items of [] \<Rightarrow> None | newest # older \<Rightarrow> Some newest)
                 = Some (hd (triggerIdsOf items))"
    by (cases "triggerIdsOf items") simp_all
  show ?thesis
    unfolding runWorkflowTriggerCheck_def
    using roots it idKey integ run creds inputs resp new populated hd
    by (simp add: Let_def opts [symmetric] items [symmetric])
qed

lemma runWorkflowTriggerCheck_not_satisfied:
  assumes roots: "env_findRootActions env (wt_workflow t) \<noteq> []"
    and it: "env_findIntegrationTrigger env (wt_integrationTrigger t) = Some it"
    and idKey: "it_idKey it = Some idKey" "idKey \<noteq> []"
    and integ: "env_findIntegration env (it_integration it) = Some integ"
    and run: "createOne (wt_owner t) (wt_workflow t) startedBy st = (run, st1)"
    and creds: "getCredentialsAndIntegrationAccount env (wt_credentials t)
                  (onTriggerFailure rec env (wt_workflow t) run ''Credentials not found'' None) st1
                = Some (Inr creds, st1)"
    and inputs: "parseStepInputs (env_evaluate env) (wt_inputs t) [] = Inr inputs"
    and opts: "opts = \<lparr>opt_integration = integ,
                  opt_integrationAccount = cr_integrationAccount creds,
                  opt_operation = TriggerOperation it,
                  opt_inputs = inputs,
                  opt_credentials = cr_credentials creds,
                  opt_accountCredential = cr_accountCredential creds\<rparr>"
    and resp: "env_run env (definitionKey integ) opts = Inr resp"
    and items: "items = env_extractTriggerItems env idKey (rr_outputs resp)"
    and new: "newTriggerItems (wt_lastId t) items = []"
  shows "runWorkflowTriggerCheck rec env t startedBy st =
           Some (Inr (), add_event (MarkTriggerAsCompleted (run_id run) False
                                      (take 1 (triggerIdsOf items))) st1)"
  unfolding runWorkflowTriggerCheck_def
  using roots it idKey integ run creds inputs resp new
  by (simp add: Let_def opts [symmetric] items [symmetric])

text \<open>
  C1. In a trigger check that reaches the deduplication (root actions exist, the trigger
  definition with its \<^verbatim>\<open>idKey\<close> and the integration are found, credentials and inputs
  resolve, the operation returns), with \<open>items\<close> the polled items, newest first, and
  \<open>new\<close> the items treated as new: a cursor that is present, not empty and first found at
  position \<open>k\<close> makes \<open>new\<close> the first \<open>k\<close> items; a cursor that is present, not empty
  and absent from the list makes \<open>new\<close> all items; a missing (or empty) cursor makes
  \<open>new\<close> the newest item alone. Without new items the trigger run is marked as not
  satisfied. With new items (enriched by the populate operation when one is configured) the
  check goes on as the action runs over these items, oldest first, from a state whose cursor
  for this trigger is the newest polled id, and whenever the check comes to an end the stored
  cursor is that id.
\<close>

theorem trigger_check_dedup_and_cursor:
  assumes roots: "env_findRootActions env (wt_workflow t) \<noteq> []"
    and it: "env_findIntegrationTrigger env (wt_integrationTrigger t) = Some it"
    and idKey: "it_idKey it = Some idKey" "idKey \<noteq> []"
    and integ: "env_findIntegration env (it_integration it) = Some integ"
    and run: "createOne (wt_owner t) (wt_workflow t) startedBy st = (run, st1)"
    and creds: "\<And>onError s. getCredentialsAndIntegrationAccount env (wt_credentials t) onError s
                = Some (Inr creds, s)"
    and inputs: "parseStepInputs (env_evaluate env) (wt_inputs t) [] = Inr inputs"
    and opts: "opts = \<lparr>opt_integration = integ,
                  opt_integrationAccount = cr_integrationAccount creds,
                  opt_operation = TriggerOperation it,
                  opt_inputs = inputs,
                  opt_credentials = cr_credentials creds,
                  opt_accountCredential = cr_accountCredential creds\<rparr>"
    and resp: "env_run env (definitionKey integ) opts = Inr resp"
    and items: "items = env_extractTriggerItems env idKey (rr_outputs resp)"
    and new: "new = newTriggerItems (wt_lastId t) items"
  shows "(\<forall>l k. wt_lastId t = Some l \<and> l \<noteq> [] \<and> k < length items \<and> triggerIdsOf items ! k = l
              \<and> (\<forall>j<k. triggerIdsOf items ! j \<noteq> l) \<longrightarrow> new = take k items)
       \<and> (\<forall>l. wt_lastId t = Some l \<and> l \<noteq> [] \<and> l \<notin> set (triggerIdsOf items) \<longrightarrow> new = items)
       \<and> (\<not> str_truthy (wt_lastId t) \<longrightarrow> new = take 1 items)
       \<and> (new = [] \<longrightarrow>
            (\<forall>rec. runWorkflowTriggerCheck rec env t startedBy st =
               Some (Inr (), add_event (MarkTriggerAsCompleted (run_id run) False
                                          (take 1 (triggerIdsOf items))) st1)))
       \<and> (\<forall>populated.
            new \<noteq> [] \<and>
            (if populateConfigured it then populateItems env (definitionKey integ) opts new
             else Inr new) = Inr populated \<longrightarrow>
              (\<forall>rec. runWorkflowTriggerCheck rec env t startedBy st =
                 runWorkflowActions rec (env_findRootActions env (wt_workflow t))
                   (map (\<lambda>data. [(wt_id t, VObj (ti_item data))]) (rev populated)) run
                   ((add_event (MarkTriggerAsCompleted (run_id run) True (triggerIdsOf items)) st1)
                      \<lparr>cursors := (cursors st1)(wt_id t := Some (hd (triggerIdsOf items)))\<rparr>))
            \<and> (\<forall>n r st'. runWorkflowTriggerCheck (treeRunner n env) env t startedBy st = Some (r, st')
                  \<longrightarrow> cursors st' (wt_id t) = Some (hd (triggerIdsOf items))))"
proof (intro conjI allI impI)
  fix l k
  assume "wt_lastId t = Some l \<and> l \<noteq> [] \<and> k < length items \<and> triggerIdsOf items ! k = l
              \<and> (\<forall>j<k. triggerIdsOf items ! j \<noteq> l)"
  then show "new = take k items"
    using newTriggerItems_found [of l k items] new by simp
next
  fix l
  assume "wt_lastId t = Some l \<and> l \<noteq> [] \<and> l \<notin> set (triggerIdsOf items)"
  then show "new = items"
    using newTriggerItems_absent [of l items] new by simp
next
  assume "\<not> str_truthy (wt_lastId t)"
  then show "new = take 1 items"
    using newTriggerItems_bootstrap new by simp
next
  fix rec
  assume "new = []"
  then show "runWorkflowTriggerCheck rec env t startedBy st =
               Some (Inr (), add_event (MarkTriggerAsCompleted (run_id run) False
                                          (take 1 (triggerIdsOf items))) st1)"
    using runWorkflowTriggerCheck_not_satisfied
            [OF roots it idKey integ run creds inputs opts resp items] new
    by simp
next
  fix populated rec
  assume h: "new \<noteq> [] \<and>
            (if populateConfigured it then populateItems env (definitionKey integ) opts new
             else Inr new) = Inr populated"
  then show "runWorkflowTriggerCheck rec env t startedBy st =
                 runWorkflowActions rec (env_findRootActions env (wt_workflow t))
                   (map (\<lambda>data. [(wt_id t, VObj (ti_item data))]) (rev populated)) run
                   ((add_event (MarkTriggerAsCompleted (run_id run) True (triggerIdsOf items)) st1)
                      \<lparr>cursors := (cursors st1)(wt_id t := Some (hd (triggerIdsOf items)))\<rparr>)"
    unfolding new
    by (intro runWorkflowTriggerCheck_dispatch
                [OF roots it idKey integ run creds inputs opts resp items]) simp_all
next
  fix populated n r st'
  assume h: "new \<noteq> [] \<and>
            (if populateConfigured it then populateItems env (definitionKey integ) opts new
             else Inr new) = Inr populated"
    and ret: "runWorkflowTriggerCheck (treeRunner n env) env t startedBy st = Some (r, st')"
  let ?st4 = "(add_event (MarkTriggerAsCompleted (run_id run) True (triggerIdsOf items)) st1)
                \<lparr>cursors := (cursors st1)(wt_id t := Some (hd (triggerIdsOf items)))\<rparr>"
  have "runWorkflowActions (treeRunner n env) (env_findRootActions env (wt_workflow t))
          (map (\<lambda>data. [(wt_id t, VObj (ti_item data))]) (rev populated)) run ?st4 = Some (r, st')"
    using runWorkflowTriggerCheck_dispatch
            [OF roots it idKey integ run creds inputs opts resp items, of populated "treeRunner n env"]
          h ret
    unfolding new by simp
  from keeps_cursorsD [OF runWorkflowActions_cursors [OF treeRunner_cursors] this]
  show "cursors st' (wt_id t) = Some (hd (triggerIdsOf items))"
    by simp
qed

lemma demo_trigger_check_returns:
  "(case runWorkflowTriggerCheck (treeRunner 3 demo_env) demo_env demo_trigger ''trigger'' demo_state of
      None \<Rightarrow> False | Some x \<Rightarrow> True)"
  by code_simp

lemma demo_ids: "triggerIdsOf demo_items = [''30'', ''20'', ''10'']"
  by code_simp

theorem trigger_check_dedup_and_cursor_witness:
  "newTriggerItems (Some ''20'') demo_items = take 1 demo_items
   \<and> (\<exists>r st'. runWorkflowTriggerCheck (treeRunner 3 demo_env) demo_env demo_trigger ''trigger''
                 demo_state = Some (r, st')
              \<and> cursors st' ''t1'' = Some ''30'')"
proof -
  obtain r st' where ret:
    "runWorkflowTriggerCheck (treeRunner 3 demo_env) demo_env demo_trigger ''trigger'' demo_state
       = Some (r, st')"
    using demo_trigger_check_returns by (auto split: option.splits)
  define run where "run = fst (createOne ''u1'' ''w1'' ''trigger'' demo_state)"
  define st1 where "st1 = snd (createOne ''u1'' ''w1'' ''trigger'' demo_state)"
  define it where "it = \<lparr>it_id = ''it1'', it_name = ''poll'', it_idKey = Some ''items[].id'',
                    it_integration = ''int1'', it_triggerPopulate = None\<rparr>"
  define integ where "integ = \<lparr>in_key = ''demo'', in_name = ''Demo'', in_parentKey = None\<rparr>"
  define creds where
    "creds = \<lparr>cr_credentials = [], cr_accountCredential = None, cr_integrationAccount = None\<rparr>"
  define opts where "opts = \<lparr>opt_integration = integ,
                  opt_integrationAccount = cr_integrationAccount creds,
                  opt_operation = TriggerOperation it,
                  opt_inputs = [],
                  opt_credentials = cr_credentials creds,
                  opt_accountCredential = cr_accountCredential creds\<rparr>"
  have roots: "env_findRootActions demo_env (wt_workflow demo_trigger) \<noteq> []"
    by (simp add: demo_env_def demo_trigger_def demo_actions_def demo_action_def demo_a1_def
          demo_a2_def demo_a3_def demo_b1_def demo_f1_def demo_g1_def demo_s1_def)
  have it: "env_findIntegrationTrigger demo_env (wt_integrationTrigger demo_trigger) = Some it"
    by (simp add: demo_env_def demo_trigger_def it_def)
  have idKey: "it_idKey it = Some ''items[].id''" "''items[].id'' \<noteq> []"
    by (simp_all add: it_def)
  have integ: "env_findIntegration demo_env (it_integration it) = Some integ"
    by (simp add: demo_env_def integ_def)
  have run: "createOne (wt_owner demo_trigger) (wt_workflow demo_trigger) ''trigger'' demo_state
               = (run, st1)"
    by (simp add: run_def st1_def demo_trigger_def)
  have creds: "\<And>onError s. getCredentialsAndIntegrationAccount demo_env (wt_credentials demo_trigger)
                 onError s = Some (Inr creds, s)"
    by (simp add: getCredentialsAndIntegrationAccount_def demo_trigger_def creds_def)
  have inputs: "parseStepInputs (env_evaluate demo_env) (wt_inputs demo_trigger) [] = Inr []"
    by (simp add: parseStepInputs_def demo_trigger_def)
  have resp: "env_run demo_env (definitionKey integ) opts = Inr (demo_response\<lparr>rr_outputs := []\<rparr>)"
    by (simp add: demo_env_def opts_def)
  have items: "demo_items = env_extractTriggerItems demo_env ''items[].id''
                              (rr_outputs (demo_response\<lparr>rr_outputs := []\<rparr>))"
    by (simp add: demo_env_def demo_items_def)
  have lastId: "wt_lastId demo_trigger = Some ''20''"
    by (simp add: demo_trigger_def)
  have pop: "\<not> populateConfigured it"
    by (simp add: populateConfigured_def it_def)
  note inst = trigger_check_dedup_and_cursor
               [OF roots it idKey integ run creds inputs opts_def resp items refl]
  have new: "newTriggerItems (Some ''20'') demo_items = take 1 demo_items"
    using inst lastId demo_ids by (auto simp: demo_items_def)
  then have ne: "newTriggerItems (wt_lastId demo_trigger) demo_items \<noteq> []"
    by (simp add: lastId demo_items_def)
  have "cursors st' (wt_id demo_trigger) = Some (hd (triggerIdsOf demo_items))"
    using inst ne pop ret by auto
  then have "cursors st' ''t1'' = Some ''30''"
    by (simp add: demo_ids demo_trigger_def)
  with new ret show ?thesis by blast
qed


subsection \<open>One node of the action tree\<close>

lemma runWorkflowActionsTree_success:
  assumes ia: "env_findIntegrationAction env (wa_integrationAction a) = Some ia"
    and integ: "env_findIntegration env (ia_integration ia) = Some integ"
    and creds: "\<And>onError s. getCredentialsAndIntegrationAccount env (wa_credentials a) onError s
                  = Some (Inr creds, s)"
    and inputs: "parseStepInputs (env_evaluate env) (wa_inputs a) bag = Inr inputs"
    and resp: "env_run env (definitionKey integ)
                 \<lparr>opt_integration = integ,
                  opt_integrationAccount = cr_integrationAccount creds,
                  opt_operation = ActionOperation ia,
                  opt_inputs = inputs,
                  opt_credentials = cr_credentials creds,
                  opt_accountCredential = cr_accountCredential creds\<rparr> = Inr resp"
  shows "runWorkflowActionsTree rec env a bag run st =
           (case rr_sleepUntil resp of
              Some sleepUntil \<Rightarrow>
                Some (Inr (), sleepWorkflowRun run a (obj_set bag (wa_id a) (VObj (rr_outputs resp)))
                                sleepUntil
                                (add_event (MarkActionAsCompleted (run_id run) (wa_id a))
                                   (add_event (AddRunningAction (run_id run) (wa_id a)
                                                 (in_name integ) (ia_name ia)) st)))
            | None \<Rightarrow>
                runNextActions rec env (selectNextActions a resp)
                  (obj_set bag (wa_id a) (VObj (rr_outputs resp))) run
                  (add_event (MarkActionAsCompleted (run_id run) (wa_id a))
                     (add_event (AddRunningAction (run_id run) (wa_id a)
                                   (in_name integ) (ia_name ia)) st)))"
  unfolding runWorkflowActionsTree_def
  using ia integ creds inputs resp
  by (simp add: Let_def)

lemma runNextActions_depends_on_targets:
  assumes "\<forall>e\<in>set nas. \<forall>x. env_findAction env (na_action e) = Some x \<longrightarrow> rec' x = rec x"
  shows "runNextActions rec' env nas bag run st = runNextActions rec env nas bag run st"
  using assms
proof (induction nas arbitrary: st)
  case Nil
  show ?case by simp
next
  case (Cons e es)
  show ?case
  proof (cases "env_findAction env (na_action e)")
    case None
    then show ?thesis by simp
  next
    case (Some x)
    with Cons.prems have same: "rec' x = rec x" by simp
    have rest: "\<And>s. runNextActions rec' env es bag run s = runNextActions rec env es bag run s"
      using Cons by simp
    show ?thesis
      using Some same rest by (simp split: option.splits sum.splits prod.splits)
  qed
qed


lemmas demo_nodes = demo_action_def demo_a1_def demo_a2_def demo_a3_def demo_b1_def demo_f1_def
  demo_g1_def demo_s1_def

lemma demo_no_credentials:
  "wa_credentials a = None \<Longrightarrow>
   getCredentialsAndIntegrationAccount env (wa_credentials a) onError s =
     Some (Inr \<lparr>cr_credentials = [], cr_accountCredential = None, cr_integrationAccount = None\<rparr>, s)"
  by (simp add: getCredentialsAndIntegrationAccount_def)

text \<open>
  C6. For a node whose operation has returned without asking to sleep: an outgoing edge is
  selected exactly when it is one of the node's edges and either has no (truthy) condition
  or its condition is the string form of the condition the operation returned; the node's
  execution continues as the loop over the targets of the selected edges, in their order,
  with the bag extended by the node's outputs; and the execution of the node depends on the
  runner of the nodes below only at the targets of the selected edges.
\<close>

theorem next_actions_selected_by_condition:
  assumes ia: "env_findIntegrationAction env (wa_integrationAction a) = Some ia"
    and integ: "env_findIntegration env (ia_integration ia) = Some integ"
    and creds: "\<And>onError s. getCredentialsAndIntegrationAccount env (wa_credentials a) onError s
                  = Some (Inr creds, s)"
    and inputs: "parseStepInputs (env_evaluate env) (wa_inputs a) bag = Inr inputs"
    and resp: "env_run env (definitionKey integ)
                 \<lparr>opt_integration = integ,
                  opt_integrationAccount = cr_integrationAccount creds,
                  opt_operation = ActionOperation ia,
                  opt_inputs = inputs,
                  opt_credentials = cr_credentials creds,
                  opt_accountCredential = cr_accountCredential creds\<rparr> = Inr resp"
    and awake: "rr_sleepUntil resp = None"
  shows "(\<forall>e. e \<in> set (selectNextActions a resp) \<longleftrightarrow>
              e \<in> set (case wa_nextActions a of None \<Rightarrow> [] | Some nas \<Rightarrow> nas)
              \<and> (\<not> str_truthy (na_condition e)
                 \<or> na_condition e = Some (js_toString (rr_condition resp))))
       \<and> (\<forall>rec. runWorkflowActionsTree rec env a bag run st =
              runNextActions rec env (selectNextActions a resp)
                (obj_set bag (wa_id a) (VObj (rr_outputs resp))) run
                (add_event (MarkActionAsCompleted (run_id run) (wa_id a))
                   (add_event (AddRunningAction (run_id run) (wa_id a)
                                 (in_name integ) (ia_name ia)) st)))
       \<and> (\<forall>rec rec'.
             (\<forall>e\<in>set (selectNextActions a resp).
                \<forall>x. env_findAction env (na_action e) = Some x \<longrightarrow> rec' x = rec x)
             \<longrightarrow> runWorkflowActionsTree rec' env a bag run st
                 = runWorkflowActionsTree rec env a bag run st)"
proof (intro conjI allI impI)
  fix e
  show "e \<in> set (selectNextActions a resp) \<longleftrightarrow>
          e \<in> set (case wa_nextActions a of None \<Rightarrow> [] | Some nas \<Rightarrow> nas)
          \<and> (\<not> str_truthy (na_condition e)
             \<or> na_condition e = Some (js_toString (rr_condition resp)))"
    by (auto simp: selectNextActions_def)
next
  fix rec
  show "runWorkflowActionsTree rec env a bag run st =
              runNextActions rec env (selectNextActions a resp)
                (obj_set bag (wa_id a) (VObj (rr_outputs resp))) run
                (add_event (MarkActionAsCompleted (run_id run) (wa_id a))
                   (add_event (AddRunningAction (run_id run) (wa_id a)
                                 (in_name integ) (ia_name ia)) st))"
    using runWorkflowActionsTree_success [OF ia integ creds inputs resp] awake
    by simp
next
  fix rec rec' :: treeRunner
  assume same: "\<forall>e\<in>set (selectNextActions a resp).
                  \<forall>x. env_findAction env (na_action e) = Some x \<longrightarrow> rec' x = rec x"
  show "runWorkflowActionsTree rec' env a bag run st = runWorkflowActionsTree rec env a bag run st"
    using runWorkflowActionsTree_success [OF ia integ creds inputs resp] awake
          runNextActions_depends_on_targets [OF same]
    by simp
qed


lemma demo_a3_children:
  "result_events
     (runNextActions (treeRunner 2 demo_env) demo_env (selectNextActions demo_a3 demo_response)
        (obj_set [] (wa_id demo_a3) (VObj (rr_outputs demo_response))) demo_run
        (add_event (MarkActionAsCompleted (run_id demo_run) (wa_id demo_a3))
           (add_event (AddRunningAction (run_id demo_run) (wa_id demo_a3) ''Demo'' ''ia-a3'')
              demo_state)))
   = Some (Inr (),
       [AddRunningAction ''r1'' ''a3'' ''Demo'' ''ia-a3'', MarkActionAsCompleted ''r1'' ''a3'',
        AddRunningAction ''r1'' ''c1'' ''Demo'' ''ia-c1'', MarkActionAsCompleted ''r1'' ''c1'',
        AddRunningAction ''r1'' ''d1'' ''Demo'' ''ia-d1'', MarkActionAsCompleted ''r1'' ''d1''])"
  by code_simp

theorem next_actions_selected_by_condition_witness:
  "\<lparr>na_action = ''c1'', na_condition = None\<rparr> \<in> set (selectNextActions demo_a3 demo_response)
   \<and> \<lparr>na_action = ''d1'', na_condition = Some ''true''\<rparr> \<in> set (selectNextActions demo_a3 demo_response)
   \<and> \<lparr>na_action = ''e1'', na_condition = Some ''false''\<rparr> \<notin> set (selectNextActions demo_a3 demo_response)
   \<and> result_events
        (runWorkflowActionsTree (treeRunner 2 demo_env) demo_env demo_a3 [] demo_run demo_state)
      = Some (Inr (),
          [AddRunningAction ''r1'' ''a3'' ''Demo'' ''ia-a3'', MarkActionAsCompleted ''r1'' ''a3'',
           AddRunningAction ''r1'' ''c1'' ''Demo'' ''ia-c1'', MarkActionAsCompleted ''r1'' ''c1'',
           AddRunningAction ''r1'' ''d1'' ''Demo'' ''ia-d1'', MarkActionAsCompleted ''r1'' ''d1''])"
proof -
  define ia where "ia = \<lparr>ia_key = ''ia-a3'', ia_name = ''ia-a3'', ia_integration = ''int1''\<rparr>"
  define integ where "integ = \<lparr>in_key = ''demo'', in_name = ''Demo'', in_parentKey = None\<rparr>"
  define creds where
    "creds = \<lparr>cr_credentials = [], cr_accountCredential = None, cr_integrationAccount = None\<rparr>"
  have ia: "env_findIntegrationAction demo_env (wa_integrationAction demo_a3) = Some ia"
    by (simp add: demo_env_def demo_nodes ia_def)
  have integ: "env_findIntegration demo_env (ia_integration ia) = Some integ"
    by (simp add: demo_env_def integ_def)
  have creds: "\<And>onError s. getCredentialsAndIntegrationAccount demo_env (wa_credentials demo_a3)
                 onError s = Some (Inr creds, s)"
    unfolding creds_def by (rule demo_no_credentials) (simp add: demo_nodes)
  have inputs: "parseStepInputs (env_evaluate demo_env) (wa_inputs demo_a3) [] = Inr []"
    by (simp add: parseStepInputs_def demo_nodes)
  have resp: "env_run demo_env (definitionKey integ)
                 \<lparr>opt_integration = integ,
                  opt_integrationAccount = cr_integrationAccount creds,
                  opt_operation = ActionOperation ia,
                  opt_inputs = [],
                  opt_credentials = cr_credentials creds,
                  opt_accountCredential = cr_accountCredential creds\<rparr> = Inr demo_response"
    by (simp add: demo_env_def ia_def)
  have awake: "rr_sleepUntil demo_response = None"
    by (simp add: demo_response_def)
  note inst = next_actions_selected_by_condition
                [OF ia integ creds inputs resp awake, of demo_run demo_state]
  have edges: "wa_nextActions demo_a3 =
                 Some [\<lparr>na_action = ''c1'', na_condition = None\<rparr>,
                       \<lparr>na_action = ''d1'', na_condition = Some ''true''\<rparr>,
                       \<lparr>na_action = ''e1'', na_condition = Some ''false''\<rparr>]"
    by (simp add: demo_nodes)
  have cond: "js_toString (rr_condition demo_response) = ''true''"
    by (simp add: demo_response_def)
  have sel: "\<lparr>na_action = ''c1'', na_condition = None\<rparr> \<in> set (selectNextActions demo_a3 demo_response)"
    "\<lparr>na_action = ''d1'', na_condition = Some ''true''\<rparr> \<in> set (selectNextActions demo_a3 demo_response)"
    "\<lparr>na_action = ''e1'', na_condition = Some ''false''\<rparr> \<notin> set (selectNextActions demo_a3 demo_response)"
    using inst by (simp_all add: edges cond)
  have eq: "runWorkflowActionsTree (treeRunner 2 demo_env) demo_env demo_a3 [] demo_run demo_state =
              runNextActions (treeRunner 2 demo_env) demo_env (selectNextActions demo_a3 demo_response)
                (obj_set [] (wa_id demo_a3) (VObj (rr_outputs demo_response))) demo_run
                (add_event (MarkActionAsCompleted (run_id demo_run) (wa_id demo_a3))
                   (add_event (AddRunningAction (run_id demo_run) (wa_id demo_a3) ''Demo'' ''ia-a3'')
                      demo_state))"
    using inst by (simp add: integ_def ia_def)
  show ?thesis
    unfolding eq using sel demo_a3_children by simp
qed

text \<open>
  C5. For a node whose operation result carries a \<^verbatim>\<open>sleepUntil\<close> instant: whatever the
  runner of the nodes below is, the execution of the node returns after recording the node
  as running and completed and persisting one continuation, which holds the bag extended by
  the node's outputs; no node below is run. Waking that continuation up runs, and awaits
  together, the nodes that the lookup returns for all declared next actions of the node,
  whatever their conditions, each with the stored bag, and then marks the run as completed.
\<close>

theorem sleeping_node_persists_continuation:
  assumes ia: "env_findIntegrationAction env (wa_integrationAction a) = Some ia"
    and integ: "env_findIntegration env (ia_integration ia) = Some integ"
    and creds: "\<And>onError s. getCredentialsAndIntegrationAccount env (wa_credentials a) onError s
                  = Some (Inr creds, s)"
    and inputs: "parseStepInputs (env_evaluate env) (wa_inputs a) bag = Inr inputs"
    and resp: "env_run env (definitionKey integ)
                 \<lparr>opt_integration = integ,
                  opt_integrationAccount = cr_integrationAccount creds,
                  opt_operation = ActionOperation ia,
                  opt_inputs = inputs,
                  opt_credentials = cr_credentials creds,
                  opt_accountCredential = cr_accountCredential creds\<rparr> = Inr resp"
    and asleep: "rr_sleepUntil resp = Some until"
    and cont: "continuation =
                 \<lparr>ws_workflowRun = run_id run, ws_workflowAction = wa_id a,
                  ws_nextActionInputs = Some (obj_set bag (wa_id a) (VObj (rr_outputs resp))),
                  ws_sleepUntil = until\<rparr>"
  shows "(\<forall>rec. runWorkflowActionsTree rec env a bag run st =
              Some (Inr (),
                    st\<lparr>events := events st @
                          [AddRunningAction (run_id run) (wa_id a) (in_name integ) (ia_name ia),
                           MarkActionAsCompleted (run_id run) (wa_id a)],
                       sleeps := sleeps st @ [continuation]\<rparr>))
       \<and> (\<forall>rec nas st'.
             env_findRun env (run_id run) = Some run \<and> env_findAction env (wa_id a) = Some a
             \<and> wa_nextActions a = Some nas \<longrightarrow>
             wakeUpWorkflowRun rec env continuation st' =
               (case promise_all
                       (map (\<lambda>action. rec action (obj_set bag (wa_id a) (VObj (rr_outputs resp))) run)
                          (env_findActionsByIds env (map na_action nas)))
                       (add_event (WakeUpWorkflowRun (run_id run)) st') of
                  None \<Rightarrow> None
                | Some (Inl e, s) \<Rightarrow> Some (Inl e, s)
                | Some (Inr u, s) \<Rightarrow>
                    Some (Inr (), add_event (MarkWorkflowRunAsCompleted (run_id run)) s)))"
proof (intro conjI allI impI)
  fix rec
  show "runWorkflowActionsTree rec env a bag run st =
              Some (Inr (),
                    st\<lparr>events := events st @
                          [AddRunningAction (run_id run) (wa_id a) (in_name integ) (ia_name ia),
                           MarkActionAsCompleted (run_id run) (wa_id a)],
                       sleeps := sleeps st @ [continuation]\<rparr>)"
    using runWorkflowActionsTree_success [OF ia integ creds inputs resp] asleep
    by (simp add: cont sleepWorkflowRun_def add_event_def)
next
  fix rec nas st'
  assume "env_findRun env (run_id run) = Some run \<and> env_findAction env (wa_id a) = Some a
             \<and> wa_nextActions a = Some nas"
  then show "wakeUpWorkflowRun rec env continuation st' =
               (case promise_all
                       (map (\<lambda>action. rec action (obj_set bag (wa_id a) (VObj (rr_outputs resp))) run)
                          (env_findActionsByIds env (map na_action nas)))
                       (add_event (WakeUpWorkflowRun (run_id run)) st') of
                  None \<Rightarrow> None
                | Some (Inl e, s) \<Rightarrow> Some (Inl e, s)
                | Some (Inr u, s) \<Rightarrow>
                    Some (Inr (), add_event (MarkWorkflowRunAsCompleted (run_id run)) s))"
    by (simp add: wakeUpWorkflowRun_def cont Let_def)
qed

lemma demo_resume:
  "result_events
     (case promise_all
             (map (\<lambda>action. treeRunner 2 demo_env action
                                (obj_set [] (wa_id demo_s1) (VObj (rr_outputs
                                   (demo_response\<lparr>rr_sleepUntil := Some ''2030-01-01T00:00:00.000Z''\<rparr>))))
                                demo_run)
                (env_findActionsByIds demo_env
                   (map na_action [\<lparr>na_action = ''c1'', na_condition = Some ''false''\<rparr>,
                                   \<lparr>na_action = ''d1'', na_condition = None\<rparr>])))
             (add_event (WakeUpWorkflowRun (run_id demo_run)) demo_state) of
        None \<Rightarrow> None
      | Some (Inl e, s) \<Rightarrow> Some (Inl e, s)
      | Some (Inr u, s) \<Rightarrow>
          Some (Inr (), add_event (MarkWorkflowRunAsCompleted (run_id demo_run)) s))
   = Some (Inr (),
       [WakeUpWorkflowRun ''r1'',
        AddRunningAction ''r1'' ''c1'' ''Demo'' ''ia-c1'', MarkActionAsCompleted ''r1'' ''c1'',
        AddRunningAction ''r1'' ''d1'' ''Demo'' ''ia-d1'', MarkActionAsCompleted ''r1'' ''d1'',
        MarkWorkflowRunAsCompleted ''r1''])"
  by code_simp

theorem sleeping_node_persists_continuation_witness:
  "runWorkflowActionsTree (treeRunner 0 demo_env) demo_env demo_s1 [] demo_run demo_state =
     Some (Inr (),
           demo_state\<lparr>events := [AddRunningAction ''r1'' ''s1'' ''Demo'' ''ia-s1'',
                                  MarkActionAsCompleted ''r1'' ''s1''],
                      sleeps := [demo_continuation]\<rparr>)
   \<and> result_events
        (wakeUpWorkflowRun (treeRunner 2 demo_env) demo_env demo_continuation demo_state)
      = Some (Inr (),
          [WakeUpWorkflowRun ''r1'',
           AddRunningAction ''r1'' ''c1'' ''Demo'' ''ia-c1'', MarkActionAsCompleted ''r1'' ''c1'',
           AddRunningAction ''r1'' ''d1'' ''Demo'' ''ia-d1'', MarkActionAsCompleted ''r1'' ''d1'',
           MarkWorkflowRunAsCompleted ''r1''])"
proof -
  define ia where "ia = \<lparr>ia_key = ''ia-s1'', ia_name = ''ia-s1'', ia_integration = ''int1''\<rparr>"
  define integ where "integ = \<lparr>in_key = ''demo'', in_name = ''Demo'', in_parentKey = None\<rparr>"
  define creds where
    "creds = \<lparr>cr_credentials = [], cr_accountCredential = None, cr_integrationAccount = None\<rparr>"
  define resp where "resp = demo_response\<lparr>rr_sleepUntil := Some ''2030-01-01T00:00:00.000Z''\<rparr>"
  have ia: "env_findIntegrationAction demo_env (wa_integrationAction demo_s1) = Some ia"
    by (simp add: demo_env_def demo_nodes ia_def)
  have integ: "env_findIntegration demo_env (ia_integration ia) = Some integ"
    by (simp add: demo_env_def integ_def)
  have creds: "\<And>onError s. getCredentialsAndIntegrationAccount demo_env (wa_credentials demo_s1)
                 onError s = Some (Inr creds, s)"
    unfolding creds_def by (rule demo_no_credentials) (simp add: demo_nodes)
  have inputs: "parseStepInputs (env_evaluate demo_env) (wa_inputs demo_s1) [] = Inr []"
    by (simp add: parseStepInputs_def demo_nodes)
  have resp: "env_run demo_env (definitionKey integ)
                 \<lparr>opt_integration = integ,
                  opt_integrationAccount = cr_integrationAccount creds,
                  opt_operation = ActionOperation ia,
                  opt_inputs = [],
                  opt_credentials = cr_credentials creds,
                  opt_accountCredential = cr_accountCredential creds\<rparr> = Inr resp"
    by (simp add: demo_env_def ia_def resp_def)
  have asleep: "rr_sleepUntil resp = Some ''2030-01-01T00:00:00.000Z''"
    by (simp add: resp_def)
  have cont: "demo_continuation =
                 \<lparr>ws_workflowRun = run_id demo_run, ws_workflowAction = wa_id demo_s1,
                  ws_nextActionInputs = Some (obj_set [] (wa_id demo_s1) (VObj (rr_outputs resp))),
                  ws_sleepUntil = ''2030-01-01T00:00:00.000Z''\<rparr>"
    by (simp add: demo_continuation_def demo_run_def demo_nodes resp_def demo_response_def)
  note inst = sleeping_node_persists_continuation
                [OF ia integ creds inputs resp asleep cont, of demo_state]
  have found: "env_findRun demo_env (run_id demo_run) = Some demo_run"
    "env_findAction demo_env (wa_id demo_s1) = Some demo_s1"
    "wa_nextActions demo_s1 = Some [\<lparr>na_action = ''c1'', na_condition = Some ''false''\<rparr>,
                                    \<lparr>na_action = ''d1'', na_condition = None\<rparr>]"
    by (simp_all add: demo_env_def demo_run_def demo_actions_def demo_nodes)
  have first: "runWorkflowActionsTree (treeRunner 0 demo_env) demo_env demo_s1 [] demo_run demo_state =
     Some (Inr (),
           demo_state\<lparr>events := [AddRunningAction ''r1'' ''s1'' ''Demo'' ''ia-s1'',
                                  MarkActionAsCompleted ''r1'' ''s1''],
                      sleeps := [demo_continuation]\<rparr>)"
    using inst by (simp add: demo_state_def demo_run_def demo_nodes integ_def ia_def)
  have second: "wakeUpWorkflowRun (treeRunner 2 demo_env) demo_env demo_continuation demo_state =
     (case promise_all
             (map (\<lambda>action. treeRunner 2 demo_env action
                                (obj_set [] (wa_id demo_s1) (VObj (rr_outputs resp))) demo_run)
                (env_findActionsByIds demo_env
                   (map na_action [\<lparr>na_action = ''c1'', na_condition = Some ''false''\<rparr>,
                                   \<lparr>na_action = ''d1'', na_condition = None\<rparr>])))
             (add_event (WakeUpWorkflowRun (run_id demo_run)) demo_state) of
        None \<Rightarrow> None
      | Some (Inl e, s) \<Rightarrow> Some (Inl e, s)
      | Some (Inr u, s) \<Rightarrow>
          Some (Inr (), add_event (MarkWorkflowRunAsCompleted (run_id demo_run)) s))"
    using inst found by blast
  show ?thesis
    unfolding second using first demo_resume by (simp add: resp_def)
qed

subsection \<open>Failures of a node and its siblings\<close>















subsection \<open>Update-time validation of the failure workflow\<close>

text \<open>
  C8. An update that sets \<^verbatim>\<open>runOnFailure\<close> to the id of the workflow being updated is
  rejected with the bad-request error, and the store of workflows is returned as it was:
  the persistence layer's update is never reached.
\<close>

theorem updateOne_rejects_self_failure_target:
  assumes "base_findById base store ident = Some workflow"
    and "patch_runOnFailure record = Some (wf_id workflow)"
  shows "updateOne base ident record store =
           (Inl (BadRequestException ''Run On Failure cannot be set with the same workflow ID.''), store)"
  using assms by (simp add: updateOne_def)

theorem updateOne_rejects_self_failure_target_witness:
  "updateOne
     \<lparr>base_findById = (\<lambda>st i. st i),
      base_updateOne = (\<lambda>st i p. (Inl (JsError ''unreachable''), st(i := None)))\<rparr>
     ''w1'' \<lparr>patch_name = None, patch_runOnFailure = Some ''w1''\<rparr>
     [''w1'' \<mapsto> \<lparr>wf_id = ''w1'', wf_owner = ''u'', wf_name = ''n'', wf_runOnFailure = None\<rparr>]
   = (Inl (BadRequestException ''Run On Failure cannot be set with the same workflow ID.''),
      [''w1'' \<mapsto> \<lparr>wf_id = ''w1'', wf_owner = ''u'', wf_name = ''n'', wf_runOnFailure = None\<rparr>])"
  using updateOne_rejects_self_failure_target
    [of "\<lparr>base_findById = (\<lambda>st i. st i),
          base_updateOne = (\<lambda>st i p. (Inl (JsError ''unreachable''), st(i := None)))\<rparr>"
        "[''w1'' \<mapsto> \<lparr>wf_id = ''w1'', wf_owner = ''u'', wf_name = ''n'', wf_runOnFailure = None\<rparr>]"
        "''w1''"
        "\<lparr>wf_id = ''w1'', wf_owner = ''u'', wf_name = ''n'', wf_runOnFailure = None\<rparr>"
        "\<lparr>patch_name = None, patch_runOnFailure = Some ''w1''\<rparr>"]
  by simp

end
